theory Spec2Isabelle
  imports Main "HOL-Library.Option_ord" "HOL-Library.Sublist"
begin

section \<open>Data model (src/types/index.ts)\<close>

text \<open>
  Errors are values: a JavaScript \<^verbatim>\<open>throw new Error(msg)\<close> is \<open>Inl (Error msg)\<close>, and the
  constraint violation SQLite raises on a second row with the same \<^verbatim>\<open>unique_id\<close>
  (\<^verbatim>\<open>unique_id TEXT UNIQUE NOT NULL\<close>) is \<open>Inl (SQLiteError msg)\<close>.
\<close>

datatype error = Error string | SQLiteError string

fun errorMessage :: "error \<Rightarrow> string" where
  "errorMessage (Error msg) = msg"
| "errorMessage (SQLiteError msg) = msg"

text \<open>A name between single quotation marks, as the messages print it.\<close>

definition quoted :: "string \<Rightarrow> string" where
  "quoted s = [CHR 0x27] @ s @ [CHR 0x27]"

text \<open>
  Values held in \<^verbatim>\<open>event.args\<close>: \<open>JNum\<close> stands for both numbers and bigints (the listener
  stringifies bigints only when it serialises the job). Arrays and nested objects are outside
  the model.
\<close>

datatype jsval = JNull | JBool bool | JNum int | JStr string

datatype JobStatus = Pending | ProofRequested | ProofReady | Executing | Completed | Failed

datatype DeploymentType = Source | Destination | Both

record ContractDeployment =
  address :: string
  deploymentType :: DeploymentType

record SourceEvent =
  sourceContractName :: string
  eventName :: string
  eventSignature :: string

record DestinationCall =
  destContractName :: string
  methodName :: string
  methodSignature :: string

record EventMapping =
  mappingName :: string
  sourceEvent :: SourceEvent
  destinationCall :: DestinationCall
  destinationResolver :: string
  proofRequired :: bool
  enabled :: bool

datatype ResolverType = EventParameter | Static | Custom

record DestinationResolver =
  resolverType :: ResolverType
  parameterName :: "string option"
  parameterMapping :: "(string \<rightharpoonup> string) option"
  destinations :: "string list option"
  customFunction :: "string option"

text \<open>
  The decoded event the listener hands to the resolver and stores in the job
  (\<^verbatim>\<open>{name, args, blockNumber, transactionIndex, index}\<close>). \<open>eventArgs\<close> is the object's
  entries in enumeration order; \<open>None\<close> is a missing \<^verbatim>\<open>args\<close> property. The job row holds
  its JSON text; the model keeps the decoded value.
\<close>

record EventData =
  eventDataName :: string
  eventArgs :: "(string \<times> jsval) list option"
  eventBlockNumber :: int
  eventTransactionIndex :: int
  eventIndex :: nat

record ProofResponse =
  proofBytes :: string
  proofBlockHash :: string
  proofBlockNumber :: int
  proofTransactionIndex :: int
  valid :: bool

text \<open>Timestamps are milliseconds since the epoch (the code stores their ISO text).\<close>

record Job =
  job_id :: "nat option"
  unique_id :: string
  source_chain :: string
  source_tx_hash :: string
  source_block_number :: int
  dest_chain :: string
  dest_address :: string
  dest_method :: string
  dest_method_signature :: string
  event_data :: EventData
  proof_data :: "ProofResponse option"
  status :: JobStatus
  proof_required :: bool
  dest_tx_hash :: "string option"
  retry_count :: nat
  error_message :: "string option"
  created_at :: int
  completed_at :: "int option"
  last_retry_at :: "int option"
  mapping_name :: string

section \<open>Rendering numbers in template literals\<close>

definition digit_char :: "nat \<Rightarrow> char" where
  "digit_char d = ''0123456789'' ! d"

fun show_nat :: "nat \<Rightarrow> string" where
  "show_nat n = (if n < 10 then [digit_char n] else show_nat (n div 10) @ [digit_char (n mod 10)])"

declare show_nat.simps [simp del]

definition show_int :: "int \<Rightarrow> string" where
  "show_int i = (if i < 0 then ''-'' @ show_nat (nat (- i)) else show_nat (nat i))"

section \<open>Destination resolver (src/services/DestinationResolver.ts)\<close>

datatype CustomResult = ResultArray "string list" | ResultSingle string

type_synonym CustomResolver = "EventMapping \<Rightarrow> EventData \<Rightarrow> string \<Rightarrow> error + CustomResult"

record DestinationResolverService =
  resolvers :: "string \<rightharpoonup> DestinationResolver"
  customResolvers :: "string \<rightharpoonup> CustomResolver"

text \<open>\<^verbatim>\<open>paramValue.toString()\<close>; on \<^verbatim>\<open>null\<close> the call raises a TypeError.\<close>

fun js_toString :: "jsval \<Rightarrow> error + string" where
  "js_toString JNull = Inl (Error ''TypeError: Cannot read properties of null'')"
| "js_toString (JBool b) = Inr (if b then ''true'' else ''false'')"
| "js_toString (JNum n) = Inr (show_int n)"
| "js_toString (JStr s) = Inr s"

text \<open>
  \<^verbatim>\<open>eventData.args?.[name]\<close>, read among the entries of \<^verbatim>\<open>args\<close>: \<open>None\<close> is
  \<^verbatim>\<open>undefined\<close>. (Names that every JavaScript object inherits, such as \<^verbatim>\<open>toString\<close>, are
  not parameter names of the contracts and are left out.)
\<close>

definition lookupArg :: "EventData \<Rightarrow> string \<Rightarrow> jsval option" where
  "lookupArg eventData k = (case eventArgs eventData of None \<Rightarrow> None | Some as \<Rightarrow> map_of as k)"

definition resolveFromEventParameter ::
  "DestinationResolver \<Rightarrow> EventData \<Rightarrow> string \<Rightarrow> error + string list" where
  "resolveFromEventParameter resolver eventData sourceChain =
     (case parameterName resolver of
        None \<Rightarrow> Inl (Error ''Event parameter resolver missing parameterName'')
      | Some pname \<Rightarrow>
          if pname = [] then Inl (Error ''Event parameter resolver missing parameterName'')
          else (case lookupArg eventData pname of
              None \<Rightarrow> Inl (Error (''Parameter '' @ quoted pname @ '' not found in event data''))
            | Some paramValue \<Rightarrow>
                (case js_toString paramValue of
                   Inl e \<Rightarrow> Inl e
                 | Inr paramValueStr \<Rightarrow>
                     (case parameterMapping resolver of
                        Some m \<Rightarrow>
                          (case m paramValueStr of
                             None \<Rightarrow>
                               Inl (Error (''No mapping found for parameter value '' @ quoted paramValueStr))
                           | Some destination \<Rightarrow>
                               if destination = []
                               then Inl (Error (''No mapping found for parameter value '' @ quoted paramValueStr))
                               else Inr [destination])
                      | None \<Rightarrow> Inr [paramValueStr]))))"

definition resolveStatic :: "DestinationResolver \<Rightarrow> string \<Rightarrow> error + string list" where
  "resolveStatic resolver sourceChain =
     (case destinations resolver of
        None \<Rightarrow> Inl (Error ''Static resolver missing destinations'')
      | Some ds \<Rightarrow>
          if length ds = 0 then Inl (Error ''Static resolver missing destinations'')
          else Inr (filter (\<lambda>dest. dest \<noteq> sourceChain) ds))"

definition resolveCustom ::
  "DestinationResolverService \<Rightarrow> DestinationResolver \<Rightarrow> EventMapping \<Rightarrow> EventData \<Rightarrow> string
     \<Rightarrow> error + string list" where
  "resolveCustom svc resolver m eventData sourceChain =
     (case customFunction resolver of
        None \<Rightarrow> Inl (Error ''Custom resolver missing customFunction'')
      | Some fname \<Rightarrow>
          if fname = [] then Inl (Error ''Custom resolver missing customFunction'')
          else (case customResolvers svc fname of
              None \<Rightarrow> Inl (Error (''Custom resolver function '' @ quoted fname @ '' not found''))
            | Some customResolver \<Rightarrow>
                (case customResolver m eventData sourceChain of
                   Inl e \<Rightarrow>
                     Inl (Error (''Custom resolver '' @ quoted fname @ '' failed: Error: '' @ errorMessage e))
                 | Inr (ResultArray ds) \<Rightarrow> Inr ds
                 | Inr (ResultSingle d) \<Rightarrow> Inr [d])))"

definition resolveDestinations ::
  "DestinationResolverService \<Rightarrow> EventMapping \<Rightarrow> EventData \<Rightarrow> string \<Rightarrow> error + string list" where
  "resolveDestinations svc m eventData sourceChain =
     (case resolvers svc (destinationResolver m) of
        None \<Rightarrow>
          Inl (Error (''Destination resolver '' @ quoted (destinationResolver m) @ '' not found''))
      | Some resolver \<Rightarrow>
          (case resolverType resolver of
             EventParameter \<Rightarrow> resolveFromEventParameter resolver eventData sourceChain
           | Static \<Rightarrow> resolveStatic resolver sourceChain
           | Custom \<Rightarrow> resolveCustom svc resolver m eventData sourceChain))"

section \<open>Job store and chain store (DatabaseService)\<close>

record ChainState =
  last_processed_block :: int
  updated_at :: int

text \<open>
  The two tables. \<open>jobs\<close> holds the rows in rowid order and \<open>sqlite_sequence\<close> the largest id
  \<^verbatim>\<open>AUTOINCREMENT\<close> has handed out.
\<close>

record Database =
  jobs :: "Job list"
  sqlite_sequence :: nat
  chain_state :: "string \<rightharpoonup> ChainState"

definition emptyDatabase :: Database where
  "emptyDatabase = \<lparr>jobs = [], sqlite_sequence = 0, chain_state = Map.empty\<rparr>"

text \<open>
  \<^verbatim>\<open>createJob\<close>: the INSERT names fourteen columns, the others start NULL; the row is refused
  when its \<^verbatim>\<open>unique_id\<close> is already in the table (the column is declared UNIQUE).
\<close>

definition createJob :: "Database \<Rightarrow> Job \<Rightarrow> error + (Database \<times> nat)" where
  "createJob d job =
     (if unique_id job \<in> set (map unique_id (jobs d))
      then Inl (SQLiteError ''UNIQUE constraint failed: jobs.unique_id'')
      else
        let lastInsertRowid = sqlite_sequence d + 1;
            row = \<lparr>job_id = Some lastInsertRowid,
                   unique_id = unique_id job,
                   source_chain = source_chain job,
                   source_tx_hash = source_tx_hash job,
                   source_block_number = source_block_number job,
                   dest_chain = dest_chain job,
                   dest_address = dest_address job,
                   dest_method = dest_method job,
                   dest_method_signature = dest_method_signature job,
                   event_data = event_data job,
                   proof_data = None,
                   status = status job,
                   proof_required = proof_required job,
                   dest_tx_hash = None,
                   retry_count = retry_count job,
                   error_message = None,
                   created_at = created_at job,
                   completed_at = None,
                   last_retry_at = None,
                   mapping_name = mapping_name job\<rparr>
        in Inr (d\<lparr>jobs := jobs d @ [row], sqlite_sequence := lastInsertRowid\<rparr>, lastInsertRowid))"

text \<open>
  The \<^verbatim>\<open>additionalData\<close> of \<^verbatim>\<open>updateJobStatus\<close>. Its type in the source is
  \<^verbatim>\<open>Partial<Job>\<close>; the three keys below are the ones its callers pass (and the ones the
  specification admits). \<open>None\<close> is a key that is absent or \<^verbatim>\<open>undefined\<close>.
\<close>

record JobPatch =
  patch_proof_data :: "ProofResponse option"
  patch_dest_tx_hash :: "string option"
  patch_error_message :: "string option"

definition noPatch :: JobPatch where
  "noPatch = \<lparr>patch_proof_data = None, patch_dest_tx_hash = None, patch_error_message = None\<rparr>"

definition setColumn :: "'a option \<Rightarrow> 'a option \<Rightarrow> 'a option" where
  "setColumn new old = (case new of None \<Rightarrow> old | Some v \<Rightarrow> Some v)"

text \<open>The SET clause of \<^verbatim>\<open>updateJobStatus\<close> on one row, in the order the query is built.\<close>

definition updateRow :: "JobStatus \<Rightarrow> JobPatch option \<Rightarrow> int \<Rightarrow> Job \<Rightarrow> Job" where
  "updateRow newStatus additionalData now row =
     (let r1 = row\<lparr>status := newStatus, last_retry_at := Some now\<rparr>;
          r2 = (case additionalData of
                  None \<Rightarrow> r1
                | Some p \<Rightarrow>
                    r1\<lparr>proof_data := setColumn (patch_proof_data p) (proof_data r1),
                       dest_tx_hash := setColumn (patch_dest_tx_hash p) (dest_tx_hash r1),
                       error_message := setColumn (patch_error_message p) (error_message r1)\<rparr>)
      in if newStatus = Completed then r2\<lparr>completed_at := Some now\<rparr> else r2)"

definition updateJobStatus ::
  "Database \<Rightarrow> nat \<Rightarrow> JobStatus \<Rightarrow> JobPatch option \<Rightarrow> int \<Rightarrow> Database" where
  "updateJobStatus d jobId newStatus additionalData now =
     d\<lparr>jobs := map (\<lambda>row. if job_id row = Some jobId
                            then updateRow newStatus additionalData now row else row) (jobs d)\<rparr>"

definition getJobByUniqueId :: "Database \<Rightarrow> string \<Rightarrow> Job option" where
  "getJobByUniqueId d uniqueId = find (\<lambda>row. unique_id row = uniqueId) (jobs d)"

text \<open>
  The two work queries. \<open>sort_key\<close> is a stable sort, so rows with equal keys stay in rowid
  order; on \<open>last_retry_at\<close> a NULL sorts first, as in SQLite.
\<close>

definition getPendingJobs :: "Database \<Rightarrow> Job list" where
  "getPendingJobs d =
     sort_key created_at
       (filter (\<lambda>row. status row = Pending \<or> status row = ProofRequested \<or> status row = ProofReady)
          (jobs d))"

definition getFailedJobs :: "Database \<Rightarrow> nat \<Rightarrow> Job list" where
  "getFailedJobs d maxRetries =
     sort_key last_retry_at
       (filter (\<lambda>row. status row = Failed \<and> retry_count row < maxRetries) (jobs d))"

definition incrementRetryCount :: "Database \<Rightarrow> nat \<Rightarrow> int \<Rightarrow> Database" where
  "incrementRetryCount d jobId now =
     d\<lparr>jobs := map (\<lambda>row. if job_id row = Some jobId
                            then row\<lparr>retry_count := retry_count row + 1, last_retry_at := Some now\<rparr>
                            else row) (jobs d)\<rparr>"

definition getLastProcessedBlock :: "Database \<Rightarrow> string \<Rightarrow> int" where
  "getLastProcessedBlock d chain =
     (case chain_state d chain of None \<Rightarrow> 0 | Some cs \<Rightarrow> last_processed_block cs)"

definition updateLastProcessedBlock :: "Database \<Rightarrow> string \<Rightarrow> int \<Rightarrow> int \<Rightarrow> Database" where
  "updateLastProcessedBlock d chain blockNumber now =
     d\<lparr>chain_state := (chain_state d)(chain \<mapsto> \<lparr>last_processed_block = blockNumber, updated_at = now\<rparr>)\<rparr>"

text \<open>
  \<^verbatim>\<open>cleanup\<close> deletes the completed rows whose \<^verbatim>\<open>completed_at\<close> is before the cutoff (a
  NULL compares as unknown, so such a row stays); \<^verbatim>\<open>clearJobs\<close> empties the table and resets
  the id sequence.
\<close>

definition cleanup :: "Database \<Rightarrow> int \<Rightarrow> Database" where
  "cleanup d cutoff =
     d\<lparr>jobs := filter (\<lambda>row. \<not> (status row = Completed \<and>
                                  (case completed_at row of None \<Rightarrow> False | Some t \<Rightarrow> t < cutoff)))
                 (jobs d)\<rparr>"

definition clearJobs :: "Database \<Rightarrow> Database" where
  "clearJobs d = d\<lparr>jobs := [], sqlite_sequence := 0\<rparr>"

text \<open>
  The job store states the service's operations can produce from an empty database, whoever
  calls them and with whatever arguments.
\<close>

inductive reachableDB :: "Database \<Rightarrow> bool" where
  init: "reachableDB emptyDatabase"
| create: "reachableDB d \<Longrightarrow> createJob d job = Inr (d', jobId) \<Longrightarrow> reachableDB d'"
| update: "reachableDB d \<Longrightarrow> reachableDB (updateJobStatus d jobId newStatus additionalData now)"
| retry: "reachableDB d \<Longrightarrow> reachableDB (incrementRetryCount d jobId now)"
| block: "reachableDB d \<Longrightarrow> reachableDB (updateLastProcessedBlock d chain blk now)"
| cleanup: "reachableDB d \<Longrightarrow> reachableDB (cleanup d cutoff)"
| clear: "reachableDB d \<Longrightarrow> reachableDB (clearJobs d)"

section \<open>Chain listener (ChainListener)\<close>

record EventLog =
  transactionHash :: string
  blockNumber :: int
  transactionIndex :: int
  logIndex :: nat
  logArgs :: "(string \<times> jsval) list option"

text \<open>
  The listener's fields; \<open>contracts\<close> is the key list of the contract table that
  \<^verbatim>\<open>initializeContracts\<close> fills.
\<close>

record ChainListener =
  chainName :: string
  blockConfirmations :: int
  contractDeployments :: "string \<rightharpoonup> (string \<rightharpoonup> ContractDeployment)"
  eventMappings :: "EventMapping list"
  contracts :: "string list"
  destinationResolverService :: DestinationResolverService

text \<open>What the listener and the queue share: the database and the queue's in-memory work list.\<close>

record RelayerState =
  db :: Database
  queue :: "Job list"

text \<open>\<^verbatim>\<open>JobQueue.addJob\<close>, which the listener calls for each job it creates.\<close>

definition addJob :: "Job \<Rightarrow> RelayerState \<Rightarrow> RelayerState" where
  "addJob job st = st\<lparr>queue := queue st @ [job]\<rparr>"

definition getDestinationCallDetails ::
  "ChainListener \<Rightarrow> EventMapping \<Rightarrow> string \<Rightarrow> error + (string \<times> string \<times> string)" where
  "getDestinationCallDetails L m destChain =
     (let cname = destContractName (destinationCall m) in
      case contractDeployments L cname of
        None \<Rightarrow> Inl (Error (''Contract '' @ cname @ '' not configured for destination chain '' @ destChain))
      | Some deployments \<Rightarrow>
          (case deployments destChain of
             None \<Rightarrow> Inl (Error (''Contract '' @ cname @ '' not configured for destination chain '' @ destChain))
           | Some dep \<Rightarrow>
               if deploymentType dep \<noteq> Destination \<and> deploymentType dep \<noteq> Both
               then Inl (Error (''Contract '' @ cname @ '' on '' @ destChain @ '' is not configured as a destination''))
               else Inr (address dep, methodName (destinationCall m), methodSignature (destinationCall m))))"

text \<open>
  The template literal \<^verbatim>\<open>`${this.chainName}-${event.transactionHash}-${event.index || 0}`\<close> of
  \<^verbatim>\<open>processEvent\<close> (on a natural number \<^verbatim>\<open>event.index || 0\<close> is the index itself), and the
  \<^verbatim>\<open>`${baseJobId}-${destChain}`\<close> of \<^verbatim>\<open>createJobForDestination\<close>.
\<close>

definition baseJobId :: "ChainListener \<Rightarrow> EventLog \<Rightarrow> string" where
  "baseJobId L event = chainName L @ ''-'' @ transactionHash event @ ''-'' @ show_nat (logIndex event)"

definition uniqueIdFor :: "string \<Rightarrow> string \<Rightarrow> string" where
  "uniqueIdFor base destChain = base @ ''-'' @ destChain"

definition createJobForDestination ::
  "ChainListener \<Rightarrow> string \<Rightarrow> EventLog \<Rightarrow> EventMapping \<Rightarrow> string \<Rightarrow> EventData \<Rightarrow> int
     \<Rightarrow> RelayerState \<Rightarrow> error + RelayerState" where
  "createJobForDestination L base event m destChain eventData now st =
     (case getDestinationCallDetails L m destChain of
        Inl e \<Rightarrow> Inl e
      | Inr (destAddress, destMethod, destMethodSignature) \<Rightarrow>
          let uniqueId = uniqueIdFor base destChain in
          if getJobByUniqueId (db st) uniqueId \<noteq> None then Inr st
          else
            let job = \<lparr>job_id = None,
                       unique_id = uniqueId,
                       source_chain = chainName L,
                       source_tx_hash = transactionHash event,
                       source_block_number = blockNumber event,
                       dest_chain = destChain,
                       dest_address = destAddress,
                       dest_method = destMethod,
                       dest_method_signature = destMethodSignature,
                       event_data = eventData,
                       proof_data = None,
                       status = Pending,
                       proof_required = proofRequired m,
                       dest_tx_hash = None,
                       retry_count = 0,
                       error_message = None,
                       created_at = now,
                       completed_at = None,
                       last_retry_at = None,
                       mapping_name = mappingName m\<rparr>
            in (case createJob (db st) job of
                  Inl e \<Rightarrow> Inl e
                | Inr (d', jobId) \<Rightarrow>
                    Inr (addJob (job\<lparr>job_id := Some jobId\<rparr>) (st\<lparr>db := d'\<rparr>))))"

text \<open>
  The loop of \<^verbatim>\<open>processEvent\<close> over the resolved chains. A throw leaves the loop: the
  enclosing \<^verbatim>\<open>catch\<close> logs it, and the jobs made so far stay.
\<close>

fun createJobsForDestinations ::
  "ChainListener \<Rightarrow> string \<Rightarrow> EventLog \<Rightarrow> EventMapping \<Rightarrow> EventData \<Rightarrow> int \<Rightarrow> string list
     \<Rightarrow> RelayerState \<Rightarrow> RelayerState" where
  "createJobsForDestinations L base event m eventData now [] st = st"
| "createJobsForDestinations L base event m eventData now (destChain # rest) st =
     (case createJobForDestination L base event m destChain eventData now st of
        Inl e \<Rightarrow> st
      | Inr st' \<Rightarrow> createJobsForDestinations L base event m eventData now rest st')"

definition eventDataOf :: "EventLog \<Rightarrow> EventMapping \<Rightarrow> EventData" where
  "eventDataOf event m =
     \<lparr>eventDataName = eventName (sourceEvent m),
      eventArgs = Some (case logArgs event of None \<Rightarrow> [] | Some as \<Rightarrow> as),
      eventBlockNumber = blockNumber event,
      eventTransactionIndex = transactionIndex event,
      eventIndex = logIndex event\<rparr>"

definition processEvent ::
  "ChainListener \<Rightarrow> EventLog \<Rightarrow> EventMapping \<Rightarrow> int \<Rightarrow> RelayerState \<Rightarrow> RelayerState" where
  "processEvent L event m now st =
     (let jobId = baseJobId L event in
      if getJobByUniqueId (db st) jobId \<noteq> None then st
      else
        let eventData = eventDataOf event m in
        case resolveDestinations (destinationResolverService L) m eventData (chainName L) of
          Inl e \<Rightarrow> st
        | Inr destinationChains \<Rightarrow>
            createJobsForDestinations L jobId event m eventData now destinationChains st)"

text \<open>
  \<^verbatim>\<open>contract.queryFilter\<close> is the chain's answer, a parameter of the model: the logs of one
  mapping's event in a block range, or the error the RPC raised.
\<close>

type_synonym QueryFilter = "string \<Rightarrow> EventMapping \<Rightarrow> int \<Rightarrow> int \<Rightarrow> error + EventLog list"

definition processContractEvents ::
  "ChainListener \<Rightarrow> QueryFilter \<Rightarrow> string \<Rightarrow> int \<Rightarrow> int \<Rightarrow> int \<Rightarrow> RelayerState \<Rightarrow> RelayerState" where
  "processContractEvents L queryFilter contractName fromBlock toBlock now st =
     (let contractMappings =
            filter (\<lambda>m. sourceContractName (sourceEvent m) = contractName \<and> enabled m) (eventMappings L)
      in fold (\<lambda>m s. case queryFilter contractName m fromBlock toBlock of
                        Inl e \<Rightarrow> s
                      | Inr events \<Rightarrow> fold (\<lambda>event s'. processEvent L event m now s') events s)
           contractMappings st)"

text \<open>
  The block range one tick of \<^verbatim>\<open>pollForEvents\<close> queries: \<open>None\<close> when there is no new
  confirmed block, else \<open>(fromBlock, toBlock)\<close>.
\<close>

definition sweepRange :: "int \<Rightarrow> int \<Rightarrow> int \<Rightarrow> (int \<times> int) option" where
  "sweepRange confirmations currentBlock lastProcessedBlock =
     (let safeBlock = currentBlock - confirmations in
      if safeBlock \<le> lastProcessedBlock then None
      else
        let fromBlock = lastProcessedBlock + 1;
            toBlock = min safeBlock (fromBlock + 100)
        in Some (fromBlock, toBlock))"

definition pollForEvents ::
  "ChainListener \<Rightarrow> QueryFilter \<Rightarrow> int \<Rightarrow> int \<Rightarrow> RelayerState \<Rightarrow> RelayerState" where
  "pollForEvents L queryFilter currentBlock now st =
     (let lastProcessedBlock = getLastProcessedBlock (db st) (chainName L) in
      case sweepRange (blockConfirmations L) currentBlock lastProcessedBlock of
        None \<Rightarrow> st
      | Some (fromBlock, toBlock) \<Rightarrow>
          let st' = fold (\<lambda>contractName s.
                            processContractEvents L queryFilter contractName fromBlock toBlock now s)
                      (contracts L) st
          in st'\<lparr>db := updateLastProcessedBlock (db st') (chainName L) toBlock now\<rparr>)"

section \<open>Job queue (JobQueue)\<close>

definition maxRetries :: nat where
  "maxRetries = 3"

definition retryDelayMs :: int where
  "retryDelayMs = 5000"

datatype Processor = ProcessProofRequest | ProcessExecution | ProcessRetry

text \<open>The processor table after \<^verbatim>\<open>registerProcessors\<close>: three \<^verbatim>\<open>set\<close> calls.\<close>

definition registerProcessors :: "JobStatus \<rightharpoonup> Processor" where
  "registerProcessors =
     [Pending \<mapsto> ProcessProofRequest, ProofReady \<mapsto> ProcessExecution, Failed \<mapsto> ProcessRetry]"

record ExecutionParams =
  contractAddress :: string
  execMethod :: string
  execMethodSignature :: string
  execEventData :: EventData
  execProofData :: "ProofResponse option"

text \<open>
  What the queue's handlers get from outside, as parameters of the model: the outcome of the
  receipt lookup and \<^verbatim>\<open>proofService.requestProof\<close> for a job, and the executor of each
  chain with the outcome of its \<^verbatim>\<open>executeTransaction\<close>.
\<close>

record QueueEnv =
  proofOutcome :: "Job \<Rightarrow> error + ProofResponse"
  executorServices :: "string \<rightharpoonup> (ExecutionParams \<Rightarrow> error + string)"

definition loadPendingJobs :: "RelayerState \<Rightarrow> RelayerState" where
  "loadPendingJobs st = st\<lparr>queue := queue st @ getPendingJobs (db st)\<rparr>"

text \<open>
  A handler returns the error it threw, if any, with the state it left behind. One handler
  run reads the clock once (\<open>now\<close>); \<open>jobId\<close> is the \<^verbatim>\<open>job.id!\<close> that \<^verbatim>\<open>processJob\<close>
  has checked.
\<close>

definition processProofRequest ::
  "QueueEnv \<Rightarrow> int \<Rightarrow> nat \<Rightarrow> Job \<Rightarrow> RelayerState \<Rightarrow> error option \<times> RelayerState" where
  "processProofRequest env now jobId job st =
     (if \<not> proof_required job
      then (None, addJob (job\<lparr>status := ProofReady\<rparr>)
                    (st\<lparr>db := updateJobStatus (db st) jobId ProofReady None now\<rparr>))
      else
        let st1 = st\<lparr>db := updateJobStatus (db st) jobId ProofRequested None now\<rparr> in
        (case proofOutcome env job of
           Inl e \<Rightarrow> (Some e, st1)
         | Inr proofResponse \<Rightarrow>
             (None, addJob (job\<lparr>status := ProofReady, proof_data := Some proofResponse\<rparr>)
                      (st1\<lparr>db := updateJobStatus (db st1) jobId ProofReady
                                    (Some (noPatch\<lparr>patch_proof_data := Some proofResponse\<rparr>)) now\<rparr>))))"

definition processExecution ::
  "QueueEnv \<Rightarrow> int \<Rightarrow> nat \<Rightarrow> Job \<Rightarrow> RelayerState \<Rightarrow> error option \<times> RelayerState" where
  "processExecution env now jobId job st =
     (let st1 = st\<lparr>db := updateJobStatus (db st) jobId Executing None now\<rparr> in
      (case executorServices env (dest_chain job) of
         None \<Rightarrow> (Some (Error (''No executor service found for chain: '' @ dest_chain job)), st1)
       | Some executor \<Rightarrow>
           (case executor \<lparr>contractAddress = dest_address job,
                           execMethod = dest_method job,
                           execMethodSignature = dest_method_signature job,
                           execEventData = event_data job,
                           execProofData = proof_data job\<rparr> of
              Inl e \<Rightarrow> (Some e, st1)
            | Inr txHash \<Rightarrow>
                (None, st1\<lparr>db := updateJobStatus (db st1) jobId Completed
                                   (Some (noPatch\<lparr>patch_dest_tx_hash := Some txHash\<rparr>)) now\<rparr>))))"

definition processRetry ::
  "int \<Rightarrow> nat \<Rightarrow> Job \<Rightarrow> RelayerState \<Rightarrow> error option \<times> RelayerState" where
  "processRetry now jobId job st =
     (let timeSinceLastRetry =
            (case last_retry_at job of Some t \<Rightarrow> now - t | None \<Rightarrow> retryDelayMs + 1)
      in
      if timeSinceLastRetry < retryDelayMs then (None, addJob job st)
      else if retry_count job \<ge> maxRetries then (None, st)
      else
        let st1 = st\<lparr>db := incrementRetryCount (db st) jobId now\<rparr>;
            newStatus = (if proof_required job \<and> proof_data job = None then Pending else ProofReady);
            st2 = st1\<lparr>db := updateJobStatus (db st1) jobId newStatus None now\<rparr>
        in (None, addJob (job\<lparr>status := newStatus, retry_count := retry_count job + 1\<rparr>) st2))"

definition handleJobError :: "int \<Rightarrow> nat \<Rightarrow> Job \<Rightarrow> error \<Rightarrow> RelayerState \<Rightarrow> RelayerState" where
  "handleJobError now jobId job e st =
     addJob (job\<lparr>status := Failed\<rparr>)
       (st\<lparr>db := updateJobStatus (db st) jobId Failed
                    (Some (noPatch\<lparr>patch_error_message := Some (errorMessage e)\<rparr>)) now\<rparr>)"

fun runProcessor ::
  "Processor \<Rightarrow> QueueEnv \<Rightarrow> int \<Rightarrow> nat \<Rightarrow> Job \<Rightarrow> RelayerState \<Rightarrow> error option \<times> RelayerState" where
  "runProcessor ProcessProofRequest env now jobId job st = processProofRequest env now jobId job st"
| "runProcessor ProcessExecution env now jobId job st = processExecution env now jobId job st"
| "runProcessor ProcessRetry env now jobId job st = processRetry now jobId job st"

text \<open>
  \<^verbatim>\<open>processJob\<close>: a job without an id (\<^verbatim>\<open>!job.id\<close>, so also id 0) and a job whose status has
  no processor are logged and dropped; an error a processor throws goes to
  \<^verbatim>\<open>handleJobError\<close>.
\<close>

definition processJob :: "QueueEnv \<Rightarrow> int \<Rightarrow> Job \<Rightarrow> RelayerState \<Rightarrow> RelayerState" where
  "processJob env now job st =
     (case job_id job of
        None \<Rightarrow> st
      | Some jobId \<Rightarrow>
          if jobId = 0 then st
          else (case registerProcessors (status job) of
              None \<Rightarrow> st
            | Some processor \<Rightarrow>
                (case runProcessor processor env now jobId job st of
                   (None, st') \<Rightarrow> st'
                 | (Some e, st') \<Rightarrow> handleJobError now jobId job e st')))"

text \<open>
  One tick of \<^verbatim>\<open>processQueue\<close> with the answers to its handlers. The jobs taken from
  the work list are handled in list order (the source starts them together and awaits them
  all), each handler getting its answer within the tick; the section on the handlers at
  their awaits cuts the tick at the awaits.
\<close>

definition processQueue :: "QueueEnv \<Rightarrow> int \<Rightarrow> RelayerState \<Rightarrow> RelayerState" where
  "processQueue env now st =
     (if length (queue st) = 0
      then
        let failedJobs = getFailedJobs (db st) maxRetries in
        if length failedJobs > 0 then st\<lparr>queue := queue st @ failedJobs\<rparr> else st
      else
        let concurrentLimit = 5;
            jobsToProcess = take concurrentLimit (queue st);
            st1 = st\<lparr>queue := drop concurrentLimit (queue st)\<rparr>
        in fold (processJob env now) jobsToProcess st1)"

section \<open>Proof polling (ProofService.pollForProof)\<close>

definition maxPollingAttempts :: nat where
  "maxPollingAttempts = 30"

definition pollingInterval :: nat where
  "pollingInterval = 500"

definition initialWait :: nat where
  "initialWait = 2000"

datatype ProofStatus =
  StatusComplete | StatusPending | StatusInitialized | StatusError | StatusOther string

text \<open>
  What one \<^verbatim>\<open>polymer_queryProof\<close> call comes back with: the request failed, the body carries
  \<^verbatim>\<open>error\<close> (message and code), the \<^verbatim>\<open>result\<close> is missing or a number, or it is a status
  object with its optional \<^verbatim>\<open>proof\<close>.
\<close>

datatype QueryResponse =
    TransportError string
  | ApiError string int
  | InvalidResult
  | StatusResult ProofStatus "string option"

text \<open>What the body of the \<^verbatim>\<open>try\<close> does with a response.\<close>

datatype PollStep = Returned string string | Continue | Thrown string

text \<open>
  \<open>decode\<close> is \<^verbatim>\<open>Buffer.from(proof, 'base64').toString('hex')\<close>, the runtime's base64 decoder
  with the bytes written in hex.
\<close>

definition pollStep :: "(string \<Rightarrow> string) \<Rightarrow> nat \<Rightarrow> QueryResponse \<Rightarrow> PollStep" where
  "pollStep decode jobId response =
     (case response of
        TransportError msg \<Rightarrow> Thrown msg
      | ApiError msg code \<Rightarrow> Thrown (''Polymer API error: '' @ msg @ '' (code: '' @ show_int code @ '')'')
      | InvalidResult \<Rightarrow> Thrown ''Invalid response: expected proof status object''
      | StatusResult st pr \<Rightarrow>
          (case st of
             StatusComplete \<Rightarrow>
               (case pr of
                  None \<Rightarrow> Thrown ''Proof completed but no proof data provided''
                | Some p \<Rightarrow>
                    if p = [] then Thrown ''Proof completed but no proof data provided''
                    else Returned (''0x'' @ decode p) ''complete'')
           | StatusPending \<Rightarrow> Continue
           | StatusInitialized \<Rightarrow> Continue
           | StatusError \<Rightarrow> Thrown (''Proof generation failed for job '' @ show_nat jobId)
           | StatusOther other \<Rightarrow> Continue))"

datatype PollAction = Wait nat | Query nat

text \<open>
  The \<^verbatim>\<open>for\<close> loop of \<^verbatim>\<open>pollForProof\<close> from attempt \<open>attempt\<close> on. \<open>respond n\<close> is the
  answer to the \<open>n\<close>-th query; the result comes with the waits and queries made, in order.
\<close>

function pollLoop ::
  "(nat \<Rightarrow> QueryResponse) \<Rightarrow> (string \<Rightarrow> string) \<Rightarrow> nat \<Rightarrow> nat \<Rightarrow> PollAction list
     \<Rightarrow> (error + string \<times> string) \<times> PollAction list" where
  "pollLoop respond decode jobId attempt acts =
     (if attempt \<le> maxPollingAttempts
      then
        (case pollStep decode jobId (respond attempt) of
           Returned proofHex st \<Rightarrow> (Inr (proofHex, st), acts @ [Query attempt])
         | Continue \<Rightarrow>
             pollLoop respond decode jobId (attempt + 1)
               (acts @ [Query attempt] @
                 (if attempt < maxPollingAttempts then [Wait pollingInterval] else []))
         | Thrown msg \<Rightarrow>
             if attempt = maxPollingAttempts
             then (Inl (Error (''Failed to get proof after '' @ show_nat maxPollingAttempts
                               @ '' polling attempts: '' @ msg)),
                   acts @ [Query attempt])
             else pollLoop respond decode jobId (attempt + 1)
                    (acts @ [Query attempt, Wait pollingInterval]))
      else (Inl (Error (''Proof polling timeout after '' @ show_nat maxPollingAttempts @ '' attempts'')),
            acts))"
  by pat_completeness auto
termination
  by (relation "measure (\<lambda>(respond, decode, jobId, attempt, acts). Suc maxPollingAttempts - attempt)")
     auto

declare pollLoop.simps [simp del]

definition pollForProof ::
  "(nat \<Rightarrow> QueryResponse) \<Rightarrow> (string \<Rightarrow> string) \<Rightarrow> nat
     \<Rightarrow> (error + string \<times> string) \<times> PollAction list" where
  "pollForProof respond decode jobId = pollLoop respond decode jobId 1 [Wait initialWait]"

section \<open>Executor: parameter selection (ExecutorService)\<close>

record AbiInput =
  inputType :: string
  inputName :: string

definition startsWith :: "string \<Rightarrow> string \<Rightarrow> bool" where
  "startsWith s p = (take (length p) s = p)"

definition getDefaultValue :: "string \<Rightarrow> jsval" where
  "getDefaultValue ty =
     (if startsWith ty ''uint'' \<or> startsWith ty ''int'' then JNum 0
      else if ty = ''address'' then JStr ''0x0000000000000000000000000000000000000000''
      else if ty = ''bool'' then JBool False
      else if ty = ''bytes'' \<or> startsWith ty ''bytes'' then JStr ''0x''
      else if ty = ''string'' then JStr []
      else JStr ''0x'')"

text \<open>
  \<^verbatim>\<open>Object.values(eventArgs).find((value, index) => index < inputs.length)\<close>: the first value
  whose position is below the number of inputs.
\<close>

definition findMatchingValue :: "nat \<Rightarrow> EventData \<Rightarrow> jsval option" where
  "findMatchingValue nInputs eventData =
     (let eventArgsList = (case eventArgs eventData of None \<Rightarrow> [] | Some as \<Rightarrow> as) in
      map_option snd
        (find (\<lambda>(index, v). index < nInputs) (enumerate 0 (map snd eventArgsList))))"

text \<open>
  The body of the loop of \<^verbatim>\<open>encodeParametersFromEventData\<close> for one input: the value pushed
  and the names the warning is logged for, or the error thrown.
\<close>

definition encodeParameter ::
  "nat \<Rightarrow> AbiInput \<Rightarrow> EventData \<Rightarrow> ProofResponse option \<Rightarrow> error + jsval \<times> string list" where
  "encodeParameter nInputs input eventData proofData =
     (if inputName input = ''proof'' \<and> inputType input = ''bytes'' then
        (case proofData of
           None \<Rightarrow> Inl (Error ''Proof data is required for proof parameter'')
         | Some pd \<Rightarrow>
             if proofBytes pd = [] then Inl (Error ''Proof data is required for proof parameter'')
             else Inr (JStr (proofBytes pd), []))
      else if inputName input = ''key'' \<and> inputType input = ''string'' then
        (case lookupArg eventData ''key'' of
           Some v \<Rightarrow> Inr (v, [])
         | None \<Rightarrow> Inl (Error ''Key not found in event data''))
      else if inputName input = ''value'' \<and> inputType input = ''bytes'' then
        (case lookupArg eventData ''value'' of
           Some v \<Rightarrow> Inr (v, [])
         | None \<Rightarrow> Inl (Error ''Value not found in event data''))
      else
        (case lookupArg eventData (inputName input) of
           Some v \<Rightarrow> Inr (v, [])
         | None \<Rightarrow>
             (case findMatchingValue nInputs eventData of
                Some matchingValue \<Rightarrow> Inr (matchingValue, [])
              | None \<Rightarrow> Inr (getDefaultValue (inputType input), [inputName input]))))"

fun encodeLoop ::
  "nat \<Rightarrow> AbiInput list \<Rightarrow> EventData \<Rightarrow> ProofResponse option \<Rightarrow> jsval list \<times> string list
     \<Rightarrow> error + jsval list \<times> string list" where
  "encodeLoop nInputs [] eventData proofData acc = Inr acc"
| "encodeLoop nInputs (input # rest) eventData proofData (vals, warnings) =
     (case encodeParameter nInputs input eventData proofData of
        Inl e \<Rightarrow> Inl e
      | Inr (v, ws) \<Rightarrow> encodeLoop nInputs rest eventData proofData (vals @ [v], warnings @ ws))"

definition encodeParametersFromEventData ::
  "AbiInput list \<Rightarrow> EventData \<Rightarrow> ProofResponse option \<Rightarrow> error + jsval list \<times> string list" where
  "encodeParametersFromEventData inputs eventData proofData =
     encodeLoop (length inputs) inputs eventData proofData ([], [])"

section \<open>The identifier as the specification words it\<close>

text \<open>
  The \<^verbatim>\<open>unique_id\<close> of the specification's data model: the four components joined by
  colons. It is the specification's formula, to be compared with the one the listener computes.
\<close>

definition spec_unique_id :: "string \<Rightarrow> string \<Rightarrow> nat \<Rightarrow> string \<Rightarrow> string" where
  "spec_unique_id sourceChain txHash eventIdx destChain =
     sourceChain @ '':'' @ txHash @ '':'' @ show_nat eventIdx @ '':'' @ destChain"

section \<open>A sample configuration\<close>

text \<open>
  One source chain \<open>A\<close>, one destination contract on chain \<open>B\<close>, one mapping with a static
  resolver, and one event of transaction \<open>0xaa\<close> at log index 2.
\<close>

definition exDeployment :: ContractDeployment where
  "exDeployment = \<lparr>address = ''0xdest'', deploymentType = Destination\<rparr>"

definition exMapping :: EventMapping where
  "exMapping =
     \<lparr>mappingName = ''M'',
      sourceEvent = \<lparr>sourceContractName = ''Sender'', eventName = ''ValueSet'',
                     eventSignature = ''ValueSet(string key, bytes value)''\<rparr>,
      destinationCall = \<lparr>destContractName = ''Receiver'', methodName = ''setValue'',
                         methodSignature = ''setValue(string key, bytes value, bytes proof)''\<rparr>,
      destinationResolver = ''r'',
      proofRequired = True,
      enabled = True\<rparr>"

definition exResolver :: "string list \<Rightarrow> DestinationResolver" where
  "exResolver ds =
     \<lparr>resolverType = Static, parameterName = None, parameterMapping = None,
      destinations = Some ds, customFunction = None\<rparr>"

definition exListener :: "string list \<Rightarrow> ChainListener" where
  "exListener ds =
     \<lparr>chainName = ''A'',
      blockConfirmations = 0,
      contractDeployments = [''Receiver'' \<mapsto> [''B'' \<mapsto> exDeployment]],
      eventMappings = [exMapping],
      contracts = [''Sender''],
      destinationResolverService =
        \<lparr>resolvers = [''r'' \<mapsto> exResolver ds], customResolvers = Map.empty\<rparr>\<rparr>"

definition exEvent :: EventLog where
  "exEvent = \<lparr>transactionHash = ''0xaa'', blockNumber = 1000, transactionIndex = 0, logIndex = 2,
              logArgs = Some [(''key'', JStr ''k'')]\<rparr>"

definition exEventData :: EventData where
  "exEventData = \<lparr>eventDataName = ''ValueSet'', eventArgs = Some [(''key'', JStr ''k'')],
                  eventBlockNumber = 1000, eventTransactionIndex = 0, eventIndex = 2\<rparr>"

definition exJob :: Job where
  "exJob =
     \<lparr>job_id = Some 1,
      unique_id = ''A-0xaa-2-B'',
      source_chain = ''A'',
      source_tx_hash = ''0xaa'',
      source_block_number = 1000,
      dest_chain = ''B'',
      dest_address = ''0xdest'',
      dest_method = ''setValue'',
      dest_method_signature = ''setValue(string key, bytes value, bytes proof)'',
      event_data = exEventData,
      proof_data = None,
      status = Pending,
      proof_required = True,
      dest_tx_hash = None,
      retry_count = 0,
      error_message = None,
      created_at = 5,
      completed_at = None,
      last_retry_at = None,
      mapping_name = ''M''\<rparr>"

definition exDatabase :: "Job list \<Rightarrow> Database" where
  "exDatabase rows = \<lparr>jobs = rows, sqlite_sequence = 1, chain_state = Map.empty\<rparr>"

definition exState :: RelayerState where
  "exState = \<lparr>db = emptyDatabase, queue = []\<rparr>"

definition exQuery :: QueryFilter where
  "exQuery contractName m fromBlock toBlock = Inr []"

section \<open>Sample queue data\<close>

text \<open>
  A proof service that never delivers, the row of the sample job after its proof request
  failed at time 900, and the same row after the retry handler ran at time 1000.
\<close>

definition exEnv :: QueueEnv where
  "exEnv = \<lparr>proofOutcome = (\<lambda>job. Inl (Error ''Proof polling timeout after 30 attempts'')),
            executorServices = Map.empty\<rparr>"

definition exFailedRow :: Job where
  "exFailedRow = exJob\<lparr>status := Failed, last_retry_at := Some 900,
                       error_message := Some ''Proof polling timeout after 30 attempts''\<rparr>"

definition exRetriedRow :: Job where
  "exRetriedRow = exFailedRow\<lparr>status := Pending, retry_count := 1, last_retry_at := Some 1000\<rparr>"

text \<open>A proof service that answers the first query with \<^verbatim>\<open>error\<close> and the second with a proof.\<close>

definition exRespond :: "nat \<Rightarrow> QueryResponse" where
  "exRespond attempt =
     (if attempt = 1 then StatusResult StatusError None
      else StatusResult StatusComplete (Some ''3q0=''))"

section \<open>Reading a patch\<close>

text \<open>
  The value a column has after \<^verbatim>\<open>updateJobStatus\<close>: the patch's value when the patch names
  the column, the old value otherwise.
\<close>

definition patchedColumn :: "JobPatch option \<Rightarrow> (JobPatch \<Rightarrow> 'a option) \<Rightarrow> 'a option \<Rightarrow> 'a option" where
  "patchedColumn additionalData column old =
     (case additionalData of
        None \<Rightarrow> old
      | Some p \<Rightarrow> (case column p of None \<Rightarrow> old | Some v \<Rightarrow> Some v))"

section \<open>Handlers of the queue at their awaits\<close>

text \<open>
  \<^verbatim>\<open>processQueue\<close> starts the handlers of the jobs it takes one after the other and then
  awaits them together. A handler runs without interruption up to its first \<^verbatim>\<open>await\<close>, and
  again from the answer on: \<^verbatim>\<open>processProofRequest\<close> waits for the receipt and for
  \<^verbatim>\<open>requestProof\<close>, \<^verbatim>\<open>processExecution\<close> for \<^verbatim>\<open>executeTransaction\<close>;
  \<^verbatim>\<open>processRetry\<close> and \<^verbatim>\<open>handleJobError\<close> never wait. While a handler waits, the timers
  start further ticks and sweeps. A waiting handler holds the id and the job record it was
  called with.
\<close>

datatype Handler = AwaitingProof nat Job | AwaitingExecution nat Job

fun handlerId :: "Handler \<Rightarrow> nat" where
  "handlerId (AwaitingProof jobId job) = jobId"
| "handlerId (AwaitingExecution jobId job) = jobId"

fun handlerJob :: "Handler \<Rightarrow> Job" where
  "handlerJob (AwaitingProof jobId job) = job"
| "handlerJob (AwaitingExecution jobId job) = job"

text \<open>
  \<^verbatim>\<open>processProofRequest\<close> up to its first \<^verbatim>\<open>await\<close> (a job that needs no proof is done
  there), and from the answer of the proof service on. An error answer stands for whatever
  the handler threw after it had written \<^verbatim>\<open>proof_requested\<close>.
\<close>

definition beginProofRequest ::
  "int \<Rightarrow> nat \<Rightarrow> Job \<Rightarrow> RelayerState \<Rightarrow> Handler option \<times> RelayerState" where
  "beginProofRequest now jobId job st =
     (if \<not> proof_required job
      then (None, addJob (job\<lparr>status := ProofReady\<rparr>)
                    (st\<lparr>db := updateJobStatus (db st) jobId ProofReady None now\<rparr>))
      else (Some (AwaitingProof jobId job),
            st\<lparr>db := updateJobStatus (db st) jobId ProofRequested None now\<rparr>))"

definition endProofRequest ::
  "int \<Rightarrow> nat \<Rightarrow> Job \<Rightarrow> error + ProofResponse \<Rightarrow> RelayerState \<Rightarrow> error option \<times> RelayerState" where
  "endProofRequest now jobId job answer st =
     (case answer of
        Inl e \<Rightarrow> (Some e, st)
      | Inr proofResponse \<Rightarrow>
          (None, addJob (job\<lparr>status := ProofReady, proof_data := Some proofResponse\<rparr>)
                   (st\<lparr>db := updateJobStatus (db st) jobId ProofReady
                                 (Some (noPatch\<lparr>patch_proof_data := Some proofResponse\<rparr>)) now\<rparr>)))"

text \<open>
  \<^verbatim>\<open>processExecution\<close> in the same two parts. Its error answers are the missing executor,
  which it throws right after writing \<^verbatim>\<open>executing\<close>, and a failed
  \<^verbatim>\<open>executeTransaction\<close>.
\<close>

definition beginExecution ::
  "int \<Rightarrow> nat \<Rightarrow> Job \<Rightarrow> RelayerState \<Rightarrow> Handler option \<times> RelayerState" where
  "beginExecution now jobId job st =
     (Some (AwaitingExecution jobId job),
      st\<lparr>db := updateJobStatus (db st) jobId Executing None now\<rparr>)"

definition endExecution ::
  "int \<Rightarrow> nat \<Rightarrow> Job \<Rightarrow> error + string \<Rightarrow> RelayerState \<Rightarrow> error option \<times> RelayerState" where
  "endExecution now jobId job answer st =
     (case answer of
        Inl e \<Rightarrow> (Some e, st)
      | Inr txHash \<Rightarrow>
          (None, st\<lparr>db := updateJobStatus (db st) jobId Completed
                            (Some (noPatch\<lparr>patch_dest_tx_hash := Some txHash\<rparr>)) now\<rparr>))"

text \<open>The \<^verbatim>\<open>try\<close>/\<^verbatim>\<open>catch\<close> of \<^verbatim>\<open>processJob\<close> around a handler: an error goes to \<^verbatim>\<open>handleJobError\<close>.\<close>

definition settle :: "int \<Rightarrow> nat \<Rightarrow> Job \<Rightarrow> error option \<times> RelayerState \<Rightarrow> RelayerState" where
  "settle now jobId job outcome =
     (case outcome of
        (None, st') \<Rightarrow> st'
      | (Some e, st') \<Rightarrow> handleJobError now jobId job e st')"

text \<open>
  What one call of \<^verbatim>\<open>processJob\<close> does before it first waits: the checks of the id and of
  the processor table, then the handler up to its \<^verbatim>\<open>await\<close>. The handler that now waits, if
  any, joins the waiting ones.
\<close>

fun startProcessor ::
  "Processor \<Rightarrow> int \<Rightarrow> nat \<Rightarrow> Job \<Rightarrow> RelayerState \<Rightarrow> Handler option \<times> RelayerState" where
  "startProcessor ProcessProofRequest now jobId job st = beginProofRequest now jobId job st"
| "startProcessor ProcessExecution now jobId job st = beginExecution now jobId job st"
| "startProcessor ProcessRetry now jobId job st =
     (None, settle now jobId job (processRetry now jobId job st))"

definition startJob ::
  "int \<Rightarrow> Job \<Rightarrow> RelayerState \<times> Handler list \<Rightarrow> RelayerState \<times> Handler list" where
  "startJob now job c =
     (case c of (st, waiting) \<Rightarrow>
        (case job_id job of
           None \<Rightarrow> c
         | Some jobId \<Rightarrow>
             if jobId = 0 then c
             else (case registerProcessors (status job) of
                 None \<Rightarrow> c
               | Some processor \<Rightarrow>
                   (case startProcessor processor now jobId job st of
                      (None, st') \<Rightarrow> (st', waiting)
                    | (Some handler, st') \<Rightarrow> (st', waiting @ [handler])))))"

text \<open>
  One tick of \<^verbatim>\<open>processQueue\<close> up to its \<^verbatim>\<open>await Promise.allSettled\<close>: on an empty work
  list the retryable rows are pulled; otherwise up to five jobs are taken and their handlers
  started in list order. \<open>clock\<close> is the reading of the clock when a job's handler starts.
\<close>

definition startQueue ::
  "(Job \<Rightarrow> int) \<Rightarrow> RelayerState \<times> Handler list \<Rightarrow> RelayerState \<times> Handler list" where
  "startQueue clock c =
     (case c of (st, waiting) \<Rightarrow>
        if length (queue st) = 0
        then
          let failedJobs = getFailedJobs (db st) maxRetries in
          if length failedJobs > 0 then (st\<lparr>queue := queue st @ failedJobs\<rparr>, waiting) else c
        else
          let concurrentLimit = 5;
              jobsToProcess = take concurrentLimit (queue st);
              st1 = st\<lparr>queue := drop concurrentLimit (queue st)\<rparr>
          in fold (\<lambda>job. startJob (clock job) job) jobsToProcess (st1, waiting))"

text \<open>
  The answers that the environment of the one-tick functions above gives to a waiting
  handler. With them \<open>processJob\<close> is \<open>startJob\<close> followed by the answer.
\<close>

definition executionOutcome :: "QueueEnv \<Rightarrow> Job \<Rightarrow> error + string" where
  "executionOutcome env job =
     (case executorServices env (dest_chain job) of
        None \<Rightarrow> Inl (Error (''No executor service found for chain: '' @ dest_chain job))
      | Some executor \<Rightarrow>
          executor \<lparr>contractAddress = dest_address job,
                    execMethod = dest_method job,
                    execMethodSignature = dest_method_signature job,
                    execEventData = event_data job,
                    execProofData = proof_data job\<rparr>)"

fun answerHandler :: "QueueEnv \<Rightarrow> int \<Rightarrow> Handler \<Rightarrow> RelayerState \<Rightarrow> RelayerState" where
  "answerHandler env now (AwaitingProof jobId job) st =
     settle now jobId job (endProofRequest now jobId job (proofOutcome env job) st)"
| "answerHandler env now (AwaitingExecution jobId job) st =
     settle now jobId job (endExecution now jobId job (executionOutcome env job) st)"

section \<open>Deleting rows from outside the relayer\<close>

text \<open>
  The database file is also open to the UI server, whose route \<^verbatim>\<open>DELETE /api/jobs/:id\<close>
  runs \<^verbatim>\<open>DELETE FROM jobs WHERE id = ?\<close>, and to the \<^verbatim>\<open>db:clear\<close> script of
  \<^verbatim>\<open>package.json\<close>, which runs \<^verbatim>\<open>DELETE FROM jobs; DELETE FROM chain_state;\<close>. Neither
  touches the id sequence.
\<close>

definition deleteJob :: "Database \<Rightarrow> nat \<Rightarrow> Database" where
  "deleteJob d jobId = d\<lparr>jobs := filter (\<lambda>row. job_id row \<noteq> Some jobId) (jobs d)\<rparr>"

definition dbClear :: "Database \<Rightarrow> Database" where
  "dbClear d = d\<lparr>jobs := [], chain_state := Map.empty\<rparr>"

section \<open>The relayer as a transition system\<close>

text \<open>
  The states the relayer reaches: the store, the work list and the handlers that wait. Each
  rule is one stretch of code that runs without an \<^verbatim>\<open>await\<close>, and the rules apply in any
  order, so every interleaving of ticks, sweeps and answers is covered, with any answers
  from the chain, the proof service and the executors and any readings of the clock.

  \<^item> \<open>boot\<close>, \<open>restart\<close>: the queue's constructor on an empty store, and on the store a stopped
    or crashed relayer left behind, whatever its rows' statuses; the old work list and the
    waiting handlers are gone.
  \<^item> \<open>tick\<close>: a tick of \<^verbatim>\<open>processQueue\<close> up to its \<^verbatim>\<open>await\<close>; ticks start while earlier
    handlers still wait.
  \<^item> \<open>proof_answer\<close>, \<open>execution_answer\<close>: a waiting handler gets its answer and runs to its
    end, through the \<^verbatim>\<open>catch\<close> of \<^verbatim>\<open>processJob\<close> if the answer is an error.
  \<^item> \<open>observe\<close>, \<open>cursor\<close>: the two writes of a listener, \<^verbatim>\<open>createJobForDestination\<close> for
    some event and destination, and \<^verbatim>\<open>updateLastProcessedBlock\<close> (in \<^verbatim>\<open>startPolling\<close> and
    at the end of a sweep). A sweep is a sequence of these.
  \<^item> \<open>purge\<close>, \<open>remove\<close>, \<open>script\<close>: \<^verbatim>\<open>cleanup\<close> and the two deletions from outside.
  \<^item> \<open>wipe\<close>: the shutdown handler's \<^verbatim>\<open>clearJobs\<close>, after which the process exits.

  Database calls are taken to succeed.
\<close>

inductive reachableState :: "RelayerState \<Rightarrow> Handler list \<Rightarrow> bool" where
  boot: "reachableState \<lparr>db = emptyDatabase, queue = []\<rparr> []"
| restart: "reachableState st waiting \<Longrightarrow>
              reachableState (loadPendingJobs \<lparr>db = db st, queue = []\<rparr>) []"
| tick: "reachableState st waiting \<Longrightarrow> startQueue clock (st, waiting) = (st', waiting') \<Longrightarrow>
           reachableState st' waiting'"
| proof_answer: "reachableState st waiting \<Longrightarrow> AwaitingProof jobId job \<in> set waiting \<Longrightarrow>
           reachableState (settle now jobId job (endProofRequest now jobId job answer st))
             (remove1 (AwaitingProof jobId job) waiting)"
| execution_answer: "reachableState st waiting \<Longrightarrow> AwaitingExecution jobId job \<in> set waiting \<Longrightarrow>
           reachableState (settle now jobId job (endExecution now jobId job answer st))
             (remove1 (AwaitingExecution jobId job) waiting)"
| observe: "reachableState st waiting \<Longrightarrow>
           createJobForDestination L base event m destChain eventData now st = Inr st' \<Longrightarrow>
           reachableState st' waiting"
| cursor: "reachableState st waiting \<Longrightarrow>
           reachableState (st\<lparr>db := updateLastProcessedBlock (db st) chain blk now\<rparr>) waiting"
| purge: "reachableState st waiting \<Longrightarrow> reachableState (st\<lparr>db := cleanup (db st) cutoff\<rparr>) waiting"
| remove: "reachableState st waiting \<Longrightarrow> reachableState (st\<lparr>db := deleteJob (db st) jobId\<rparr>) waiting"
| script: "reachableState st waiting \<Longrightarrow> reachableState (st\<lparr>db := dbClear (db st)\<rparr>) waiting"
| wipe: "reachableState st waiting \<Longrightarrow> reachableState \<lparr>db = clearJobs (db st), queue = []\<rparr> []"

text \<open>
  What holds in every such state, used to prove it. In the store every retry count is at most
  3, \<^verbatim>\<open>completed_at\<close> is set exactly on the completed rows, and the ids are distinct and within
  the id sequence. A job record \<open>j\<close> that the work list or a handler holds has an id; the row
  with that id, if there is one, has the record's retry count and is not completed. No two
  records held have the same id. The row of a waiting handler has the status the handler
  wrote before it waited. \<open>work\<close> are the records a tick has taken and not yet started.
\<close>

definition storeInvariant :: "Database \<Rightarrow> bool" where
  "storeInvariant d \<longleftrightarrow>
     (\<forall>row \<in> set (jobs d).
        retry_count row \<le> 3
      \<and> ((completed_at row \<noteq> None) = (status row = Completed))
      \<and> (\<exists>i. job_id row = Some i \<and> i \<le> sqlite_sequence d))
   \<and> distinct (map job_id (jobs d))"

definition heldJob :: "Database \<Rightarrow> Job \<Rightarrow> bool" where
  "heldJob d j \<longleftrightarrow>
     (\<exists>i. job_id j = Some i \<and> i \<le> sqlite_sequence d)
   \<and> (\<forall>row \<in> set (jobs d).
        job_id row = job_id j \<longrightarrow> retry_count row = retry_count j \<and> status row \<noteq> Completed)"

definition relayerInvariant :: "Job list \<Rightarrow> RelayerState \<Rightarrow> bool" where
  "relayerInvariant work st \<longleftrightarrow>
     storeInvariant (db st)
   \<and> distinct (map job_id (work @ queue st))
   \<and> (\<forall>j \<in> set (work @ queue st). heldJob (db st) j)"

fun statusWhileWaiting :: "Handler \<Rightarrow> JobStatus" where
  "statusWhileWaiting (AwaitingProof jobId job) = ProofRequested"
| "statusWhileWaiting (AwaitingExecution jobId job) = Executing"

definition waitingJob :: "Database \<Rightarrow> Handler \<Rightarrow> bool" where
  "waitingJob d h \<longleftrightarrow>
     job_id (handlerJob h) = Some (handlerId h)
   \<and> (\<forall>row \<in> set (jobs d). job_id row = Some (handlerId h) \<longrightarrow> status row = statusWhileWaiting h)"

definition systemInvariant :: "Job list \<Rightarrow> RelayerState \<Rightarrow> Handler list \<Rightarrow> bool" where
  "systemInvariant work st waiting \<longleftrightarrow>
     relayerInvariant (work @ map handlerJob waiting) st
   \<and> (\<forall>h \<in> set waiting. waitingJob (db st) h)"

section \<open>A sample run\<close>

text \<open>
  The chain answers every query for the sample mapping with the sample event. The listener
  of chain \<open>A\<close> sweeps at time 5 and creates the sample job. The tick at time 10 starts its
  proof request, which is answered at time 12; the tick at time 20 starts its execution,
  which is answered with the transaction hash at time 25.
\<close>

definition exQueryOne :: QueryFilter where
  "exQueryOne contractName m fromBlock toBlock = Inr [exEvent]"

definition exSweptDatabase :: "Job list \<Rightarrow> Database" where
  "exSweptDatabase rows =
     \<lparr>jobs = rows, sqlite_sequence = 1,
      chain_state = [''A'' \<mapsto> \<lparr>last_processed_block = 101, updated_at = 5\<rparr>]\<rparr>"

definition exProof :: ProofResponse where
  "exProof = \<lparr>proofBytes = ''0xdead'', proofBlockHash = ''0x00'', proofBlockNumber = 1000,
              proofTransactionIndex = 0, valid = True\<rparr>"

definition exProofReadyJob :: Job where
  "exProofReadyJob = exJob\<lparr>status := ProofReady, proof_data := Some exProof\<rparr>"

definition exProofRequestedRow :: Job where
  "exProofRequestedRow = exJob\<lparr>status := ProofRequested, last_retry_at := Some 10\<rparr>"

definition exProofReadyRow :: Job where
  "exProofReadyRow = exJob\<lparr>status := ProofReady, proof_data := Some exProof, last_retry_at := Some 12\<rparr>"

definition exExecutingRow :: Job where
  "exExecutingRow = exJob\<lparr>status := Executing, proof_data := Some exProof, last_retry_at := Some 20\<rparr>"

definition exCompletedRow :: Job where
  "exCompletedRow = exJob\<lparr>status := Completed, proof_data := Some exProof,
                          dest_tx_hash := Some ''0xbb'', completed_at := Some 25,
                          last_retry_at := Some 25\<rparr>"


section \<open>Properties\<close>

subsection \<open>Facts about the job store\<close>

lemma unique_id_updateRow [simp]: "unique_id (updateRow s p now row) = unique_id row"
  by (simp add: updateRow_def Let_def split: option.splits)

lemma unique_ids_updateJobStatus [simp]:
  "map unique_id (jobs (updateJobStatus d i s p now)) = map unique_id (jobs d)"
  by (simp add: updateJobStatus_def comp_def cong: map_cong)

lemma unique_ids_incrementRetryCount [simp]:
  "map unique_id (jobs (incrementRetryCount d i now)) = map unique_id (jobs d)"
  by (simp add: incrementRetryCount_def comp_def cong: map_cong)

lemma createJob_Inr:
  "createJob d job = Inr (d', i) \<Longrightarrow>
     unique_id job \<notin> set (map unique_id (jobs d)) \<and>
     (\<exists>row. jobs d' = jobs d @ [row] \<and> unique_id row = unique_id job \<and> job_id row = Some i
            \<and> status row = status job \<and> retry_count row = retry_count job
            \<and> source_chain row = source_chain job \<and> source_tx_hash row = source_tx_hash job
            \<and> dest_chain row = dest_chain job \<and> event_data row = event_data job)"
  by (auto simp: createJob_def Let_def split: if_splits)

lemma reachable_distinct: "reachableDB d \<Longrightarrow> distinct (map unique_id (jobs d))"
proof (induction rule: reachableDB.induct)
  case init
  show ?case by (simp add: emptyDatabase_def)
next
  case (create d job d' jobId)
  from createJob_Inr[OF create.hyps(2)] create.IH show ?case by auto
next
  case (cleanup d cutoff)
  then show ?case by (simp add: cleanup_def distinct_map_filter)
qed (simp_all add: updateLastProcessedBlock_def clearJobs_def)

lemma distinct_count_le1:
  "distinct (map f xs) \<Longrightarrow> length (filter (\<lambda>x. f x = y) xs) \<le> 1"
proof (induction xs)
  case Nil
  show ?case by simp
next
  case (Cons x xs)
  show ?case
  proof (cases "f x = y")
    case True
    from Cons.prems have "f x \<notin> f ` set xs" by simp
    with True have "\<forall>z \<in> set xs. f z \<noteq> y" by blast
    then have "filter (\<lambda>x. f x = y) xs = []"
      by (simp add: filter_empty_conv)
    with True show ?thesis by simp
  next
    case False
    with Cons show ?thesis by simp
  qed
qed

lemma getJobByUniqueId_None_iff:
  "getJobByUniqueId d u = None \<longleftrightarrow> u \<notin> unique_id ` set (jobs d)"
  by (auto simp: getJobByUniqueId_def find_None_iff)

lemma createJobForDestination_existing:
  assumes "u \<in> unique_id ` set (jobs (db st))" and "u = uniqueIdFor base destChain"
  shows "createJobForDestination L base event m destChain eventData now st = Inr st
       \<or> (\<exists>e. createJobForDestination L base event m destChain eventData now st = Inl e
               \<and> getDestinationCallDetails L m destChain = Inl e)"
  using assms
  by (simp add: createJobForDestination_def Let_def getJobByUniqueId_None_iff
      split: sum.splits prod.splits)

lemma createJobForDestination_Inr:
  assumes "createJobForDestination L base event m destChain eventData now st = Inr st'"
  shows "(\<forall>e. getDestinationCallDetails L m destChain \<noteq> Inl e)
       \<and> uniqueIdFor base destChain \<in> unique_id ` set (jobs (db st'))
       \<and> unique_id ` set (jobs (db st)) \<subseteq> unique_id ` set (jobs (db st'))"
proof (cases "getDestinationCallDetails L m destChain")
  case (Inl e)
  with assms show ?thesis by (simp add: createJobForDestination_def)
next
  case (Inr x)
  show ?thesis
  proof (cases "uniqueIdFor base destChain \<in> unique_id ` set (jobs (db st))")
    case True
    with assms Inr have "st' = st"
      by (simp add: createJobForDestination_def Let_def getJobByUniqueId_None_iff split: prod.splits)
    with True Inr show ?thesis by simp
  next
    case False
    with assms Inr obtain job d' i where
      c: "createJob (db st) job = Inr (d', i)" and u: "unique_id job = uniqueIdFor base destChain"
      and s: "db st' = d'"
      by (auto simp: createJobForDestination_def Let_def getJobByUniqueId_None_iff addJob_def
          split: prod.splits sum.splits)
    from createJob_Inr[OF c] u s Inr show ?thesis by auto
  qed
qed

lemma createJobs_mono:
  "unique_id ` set (jobs (db st))
     \<subseteq> unique_id ` set (jobs (db (createJobsForDestinations L base event m eventData now ds st)))"
proof (induction ds arbitrary: st)
  case Nil
  show ?case by simp
next
  case (Cons d ds)
  show ?case
  proof (cases "createJobForDestination L base event m d eventData now st")
    case (Inl e)
    then show ?thesis by simp
  next
    case (Inr st')
    from createJobForDestination_Inr[OF Inr]
    have "unique_id ` set (jobs (db st)) \<subseteq> unique_id ` set (jobs (db st'))" by simp
    also note Cons.IH[of st']
    finally show ?thesis using Inr by simp
  qed
qed

lemma createJobForDestination_Inl_again:
  assumes "createJobForDestination L base event m d eventData now st = Inl e"
  shows "\<exists>e'. createJobForDestination L base event m d eventData' now' st = Inl e'"
  using assms
  by (auto simp: createJobForDestination_def Let_def createJob_def split: sum.splits prod.splits if_splits)

lemma createJobs_idem:
  "createJobsForDestinations L base event m eventData' now' ds
     (createJobsForDestinations L base event m eventData now ds st)
   = createJobsForDestinations L base event m eventData now ds st"
proof (induction ds arbitrary: st)
  case Nil
  show ?case by simp
next
  case (Cons d ds)
  show ?case
  proof (cases "createJobForDestination L base event m d eventData now st")
    case (Inl e)
    from createJobForDestination_Inl_again[OF Inl, of eventData' now'] Inl
    show ?thesis by auto
  next
    case (Inr st')
    let ?fin = "createJobsForDestinations L base event m eventData now ds st'"
    from createJobForDestination_Inr[OF Inr] createJobs_mono[of st' L base event m eventData now ds]
    have ex: "uniqueIdFor base d \<in> unique_id ` set (jobs (db ?fin))"
      and ok: "\<forall>e. getDestinationCallDetails L m d \<noteq> Inl e"
      by auto
    from createJobForDestination_existing[OF ex refl, of L event m eventData' now'] ok
    have "createJobForDestination L base event m d eventData' now' ?fin = Inr ?fin"
      by auto
    with Inr Cons.IH[of st'] show ?thesis by simp
  qed
qed

lemma createJobs_only_adds:
  "u \<in> unique_id ` set (jobs (db (createJobsForDestinations L base event m eventData now ds st)))
   \<Longrightarrow> u \<in> unique_id ` set (jobs (db st)) \<or> (\<exists>d \<in> set ds. u = uniqueIdFor base d)"
proof (induction ds arbitrary: st)
  case Nil
  then show ?case by simp
next
  case (Cons d ds)
  show ?case
  proof (cases "createJobForDestination L base event m d eventData now st")
    case (Inl e)
    with Cons.prems show ?thesis by simp
  next
    case (Inr st')
    with Cons.prems Cons.IH[of st'] have
      "u \<in> unique_id ` set (jobs (db st')) \<or> (\<exists>d \<in> set ds. u = uniqueIdFor base d)" by simp
    moreover have "unique_id ` set (jobs (db st')) \<subseteq> insert (uniqueIdFor base d) (unique_id ` set (jobs (db st)))"
      using Inr
      by (auto simp: createJobForDestination_def Let_def getJobByUniqueId_None_iff addJob_def
          split: prod.splits sum.splits if_splits dest!: createJob_Inr)
    ultimately show ?thesis by auto
  qed
qed

lemma base_not_unique: "uniqueIdFor base d \<noteq> base"
  by (simp add: uniqueIdFor_def)

lemma processEvent_idem:
  "processEvent L event m now' (processEvent L event m now st) = processEvent L event m now st"
proof (cases "baseJobId L event \<in> unique_id ` set (jobs (db st))")
  case True
  then show ?thesis by (simp add: processEvent_def Let_def getJobByUniqueId_None_iff)
next
  case False
  show ?thesis
  proof (cases "resolveDestinations (destinationResolverService L) m (eventDataOf event m) (chainName L)")
    case (Inl e)
    with False show ?thesis by (simp add: processEvent_def Let_def getJobByUniqueId_None_iff)
  next
    case (Inr ds)
    let ?fin = "createJobsForDestinations L (baseJobId L event) event m (eventDataOf event m) now ds st"
    have fin: "processEvent L event m now st = ?fin"
      using False Inr by (simp add: processEvent_def Let_def getJobByUniqueId_None_iff)
    have "baseJobId L event \<notin> unique_id ` set (jobs (db ?fin))"
      using createJobs_only_adds[of "baseJobId L event" L "baseJobId L event" event m _ now ds st] False
      by (auto simp: base_not_unique[symmetric])
    then have "processEvent L event m now' ?fin
             = createJobsForDestinations L (baseJobId L event) event m (eventDataOf event m) now' ds ?fin"
      using Inr by (simp add: processEvent_def Let_def getJobByUniqueId_None_iff)
    with fin createJobs_idem show ?thesis by simp
  qed
qed


lemma show_nat_2: "show_nat 2 = ''2''"
  by (simp add: show_nat.simps[of 2] digit_char_def)

lemma ex_eventDataOf: "eventDataOf exEvent exMapping = exEventData"
  by (simp add: eventDataOf_def exEvent_def exMapping_def exEventData_def)

lemma ex_baseJobId: "baseJobId (exListener ds) exEvent = ''A-0xaa-2''"
  by (simp add: baseJobId_def exListener_def exEvent_def show_nat_2)

lemma ex_details:
  "getDestinationCallDetails (exListener ds) exMapping ''B''
     = Inr (''0xdest'', ''setValue'', ''setValue(string key, bytes value, bytes proof)'')"
  by (simp add: getDestinationCallDetails_def exListener_def exMapping_def exDeployment_def)

lemma ex_createJobForDestination:
  "createJobForDestination (exListener ds) ''A-0xaa-2'' exEvent exMapping ''B'' exEventData 5 exState
     = Inr \<lparr>db = exDatabase [exJob], queue = [exJob]\<rparr>"
proof -
  have n: "chainName (exListener ds) = ''A''" by (simp add: exListener_def)
  have g: "getJobByUniqueId (db exState) ''A-0xaa-2-B'' = None"
    by (simp add: getJobByUniqueId_def exState_def emptyDatabase_def)
  show ?thesis
    by (simp add: createJobForDestination_def ex_details uniqueIdFor_def g n Let_def)
       (simp add: createJob_def exState_def emptyDatabase_def Let_def addJob_def exJob_def
          exDatabase_def exEvent_def exMapping_def)
qed

lemma ex_resolve:
  "resolveDestinations (destinationResolverService (exListener [''A'', ''B''])) exMapping exEventData ''A''
     = Inr [''B'']"
  by (simp add: resolveDestinations_def exListener_def exMapping_def exResolver_def resolveStatic_def)

lemma ex_processEvent:
  "processEvent (exListener [''A'', ''B'']) exEvent exMapping 5 exState
     = \<lparr>db = exDatabase [exJob], queue = [exJob]\<rparr>"
proof -
  have "getJobByUniqueId (db exState) ''A-0xaa-2'' = None"
    by (simp add: getJobByUniqueId_def exState_def emptyDatabase_def)
  moreover have "chainName (exListener [''A'', ''B'']) = ''A''"
    by (simp add: exListener_def)
  ultimately show ?thesis
    by (simp add: processEvent_def ex_baseJobId ex_eventDataOf ex_resolve ex_createJobForDestination Let_def)
qed

subsection \<open>Static resolver\<close>

text \<open>
  C9. A static resolver with a non-empty destination list returns the configured destinations
  with the source chain filtered out, in their configured order. When the only configured
  destination is the source chain itself the result is empty, and \<^verbatim>\<open>processEvent\<close> then
  leaves the database and the work list as they were: no job is created.
\<close>

theorem static_resolver_removes_source:
  assumes "resolvers (destinationResolverService L) (destinationResolver m) = Some r"
      and "resolverType r = Static"
      and "destinations r = Some ds"
      and "ds \<noteq> []"
  shows "resolveDestinations (destinationResolverService L) m eventData sourceChain
           = Inr (filter (\<lambda>dest. dest \<noteq> sourceChain) ds)
       \<and> subseq (filter (\<lambda>dest. dest \<noteq> sourceChain) ds) ds
       \<and> set (filter (\<lambda>dest. dest \<noteq> sourceChain) ds) = set ds - {sourceChain}
       \<and> (ds = [chainName L] \<longrightarrow>
            resolveDestinations (destinationResolverService L) m (eventDataOf event m) (chainName L) = Inr []
          \<and> processEvent L event m now st = st)"
  using assms
  by (auto simp: resolveDestinations_def resolveStatic_def processEvent_def Let_def)

theorem static_resolver_removes_source_witness:
  "resolveDestinations (destinationResolverService (exListener [''A''])) exMapping exEventData ''A'' = Inr []
   \<and> processEvent (exListener [''A'']) exEvent exMapping 5 exState = exState"
proof -
  have r: "resolvers (destinationResolverService (exListener [''A''])) (destinationResolver exMapping)
             = Some (exResolver [''A''])"
    by (simp add: exListener_def exMapping_def)
  have t: "resolverType (exResolver [''A'']) = Static" by (simp add: exResolver_def)
  have d: "destinations (exResolver [''A'']) = Some [''A'']" by (simp add: exResolver_def)
  have n: "[''A''] \<noteq> ([] :: string list)" by simp
  have c: "chainName (exListener [''A'']) = ''A''" by (simp add: exListener_def)
  from static_resolver_removes_source[OF r t d n, of exEventData "''A''" exEvent 5 exState] c
  show ?thesis by (simp add: ex_eventDataOf)
qed

subsection \<open>Sweep range\<close>

text \<open>
  C3. The specification caps a sweep at 100 blocks (\<open>to = min(safe, from + 99)\<close>), and the
  comment in \<^verbatim>\<open>pollForEvents\<close> says \<^verbatim>\<open>Process max 100 blocks at once\<close>; the code computes
  \<^verbatim>\<open>Math.min(safeBlock, fromBlock + 100)\<close>. With head 201, no confirmations and block 100
  processed last, one tick queries blocks 101 to 201, which are 101 blocks, and moves the
  cursor to 201.
\<close>

theorem sweep_of_101_blocks_in_one_tick:
  "sweepRange 0 201 100 = Some (101, 201)
   \<and> getLastProcessedBlock
        (db (pollForEvents (exListener [''B'']) exQuery 201 7
               (exState\<lparr>db := updateLastProcessedBlock emptyDatabase ''A'' 100 0\<rparr>))) ''A'' = 201"
  by (simp add: sweepRange_def pollForEvents_def getLastProcessedBlock_def updateLastProcessedBlock_def
      exListener_def exState_def emptyDatabase_def Let_def processContractEvents_def exQuery_def exMapping_def)

subsection \<open>The unique id of a created job\<close>

text \<open>
  C2, as the specification states it, fails: the listener joins the four components with
  hyphens, not colons. The event of transaction \<open>0xaa\<close> at index 2 on chain \<open>A\<close>, relayed to
  \<open>B\<close>, gets the id \<open>A-0xaa-2-B\<close> where the specification's formula gives \<open>A:0xaa:2:B\<close>.
\<close>

theorem unique_id_colon_counterexample:
  "jobs (db (processEvent (exListener [''A'', ''B'']) exEvent exMapping 5 exState)) = [exJob]
   \<and> unique_id exJob = ''A-0xaa-2-B''
   \<and> spec_unique_id (source_chain exJob) (source_tx_hash exJob) (eventIndex (event_data exJob))
        (dest_chain exJob) = ''A:0xaa:2:B''
   \<and> unique_id exJob \<noteq> spec_unique_id (source_chain exJob) (source_tx_hash exJob)
        (eventIndex (event_data exJob)) (dest_chain exJob)"
  by (simp add: ex_processEvent exDatabase_def exJob_def spec_unique_id_def exEventData_def show_nat_2)

lemma createJobForDestination_new_rows:
  assumes "createJobForDestination L base event m destChain eventData now st = Inr st'"
      and "job \<in> set (jobs (db st'))"
  shows "job \<in> set (jobs (db st))
       \<or> (unique_id job = base @ ''-'' @ destChain \<and> source_chain job = chainName L
          \<and> source_tx_hash job = transactionHash event \<and> dest_chain job = destChain
          \<and> event_data job = eventData \<and> status job = Pending \<and> retry_count job = 0)"
  using assms
  by (auto simp: createJobForDestination_def Let_def getJobByUniqueId_None_iff addJob_def
      uniqueIdFor_def split: prod.splits sum.splits if_splits dest!: createJob_Inr)

lemma createJobs_new_rows:
  "job \<in> set (jobs (db (createJobsForDestinations L base event m eventData now ds st)))
   \<Longrightarrow> job \<in> set (jobs (db st))
       \<or> (\<exists>destChain. unique_id job = base @ ''-'' @ destChain \<and> source_chain job = chainName L
            \<and> source_tx_hash job = transactionHash event \<and> dest_chain job = destChain
            \<and> event_data job = eventData \<and> status job = Pending \<and> retry_count job = 0)"
proof (induction ds arbitrary: st)
  case Nil
  then show ?case by simp
next
  case (Cons d ds)
  show ?case
  proof (cases "createJobForDestination L base event m d eventData now st")
    case (Inl e)
    with Cons.prems show ?thesis by simp
  next
    case (Inr st')
    with Cons.prems Cons.IH[of st'] createJobForDestination_new_rows[OF Inr, of job]
    show ?thesis by auto
  qed
qed

text \<open>
  C2, amended. Every job that \<^verbatim>\<open>processEvent\<close> adds to the store for an observed event has
  the unique id \<open>source_chain-source_tx_hash-event_index-dest_chain\<close>: the source chain, the
  transaction hash, the event's log index in decimal and the destination chain, joined by
  hyphens.
\<close>

theorem unique_id_hyphen_joined:
  assumes "job \<in> set (jobs (db (processEvent L event m now st)))"
      and "job \<notin> set (jobs (db st))"
  shows "unique_id job = source_chain job @ ''-'' @ source_tx_hash job @ ''-''
                           @ show_nat (eventIndex (event_data job)) @ ''-'' @ dest_chain job
       \<and> source_chain job = chainName L
       \<and> source_tx_hash job = transactionHash event
       \<and> eventIndex (event_data job) = logIndex event"
proof -
  from assms obtain ds where
    "job \<in> set (jobs (db (createJobsForDestinations L (baseJobId L event) event m (eventDataOf event m) now ds st)))"
    by (auto simp: processEvent_def Let_def split: if_splits sum.splits)
  from createJobs_new_rows[OF this] assms(2) show ?thesis
    by (auto simp: baseJobId_def eventDataOf_def)
qed

theorem unique_id_hyphen_joined_witness:
  "unique_id exJob = source_chain exJob @ ''-'' @ source_tx_hash exJob @ ''-''
                           @ show_nat (eventIndex (event_data exJob)) @ ''-'' @ dest_chain exJob
   \<and> unique_id exJob = ''A-0xaa-2-B''"
proof -
  have a: "exJob \<in> set (jobs (db (processEvent (exListener [''A'', ''B'']) exEvent exMapping 5 exState)))"
    by (simp add: ex_processEvent exDatabase_def)
  have b: "exJob \<notin> set (jobs (db exState))"
    by (simp add: exState_def emptyDatabase_def)
  from unique_id_hyphen_joined[OF a b] show ?thesis
    by (simp add: exJob_def)
qed

subsection \<open>At most one row per unique id\<close>

text \<open>
  C1. In every reachable job store state there is at most one row for any \<^verbatim>\<open>unique_id\<close>.
  When a row with the id of a (source chain, transaction, log index, destination) tuple
  exists, \<^verbatim>\<open>createJobForDestination\<close> for that tuple returns the state it was given (or
  throws, before touching anything, because the destination is not configured): no second row
  is inserted and no status changes. Observing an event a second time by \<^verbatim>\<open>processEvent\<close>
  changes nothing either.
\<close>

theorem unique_id_at_most_one_row:
  assumes "reachableDB (db st)"
  shows "(\<forall>u. length (filter (\<lambda>row. unique_id row = u) (jobs (db st))) \<le> 1)
       \<and> (\<forall>L event m destChain eventData now.
            uniqueIdFor (baseJobId L event) destChain \<in> unique_id ` set (jobs (db st)) \<longrightarrow>
              (case createJobForDestination L (baseJobId L event) event m destChain eventData now st of
                 Inr st' \<Rightarrow> st' = st
               | Inl e \<Rightarrow> getDestinationCallDetails L m destChain = Inl e))
       \<and> (\<forall>L event m now now'.
            processEvent L event m now' (processEvent L event m now st) = processEvent L event m now st)"
proof (intro conjI allI impI)
  fix u
  from reachable_distinct[OF assms] show "length (filter (\<lambda>row. unique_id row = u) (jobs (db st))) \<le> 1"
    by (rule distinct_count_le1)
next
  fix L event m destChain eventData now
  assume "uniqueIdFor (baseJobId L event) destChain \<in> unique_id ` set (jobs (db st))"
  from createJobForDestination_existing[OF this refl, of L event m eventData now]
  show "case createJobForDestination L (baseJobId L event) event m destChain eventData now st of
          Inr st' \<Rightarrow> st' = st
        | Inl e \<Rightarrow> getDestinationCallDetails L m destChain = Inl e"
    by auto
next
  fix L event m now now'
  show "processEvent L event m now' (processEvent L event m now st) = processEvent L event m now st"
    by (rule processEvent_idem)
qed

theorem unique_id_at_most_one_row_witness:
  "length (filter (\<lambda>row. unique_id row = ''A-0xaa-2-B'')
             (jobs (exDatabase [exJob\<lparr>status := ProofReady, last_retry_at := Some 6\<rparr>]))) \<le> 1
   \<and> createJobForDestination (exListener [''A'', ''B'']) ''A-0xaa-2'' exEvent exMapping ''B'' exEventData 9
        \<lparr>db = exDatabase [exJob\<lparr>status := ProofReady, last_retry_at := Some 6\<rparr>], queue = []\<rparr>
       = Inr \<lparr>db = exDatabase [exJob\<lparr>status := ProofReady, last_retry_at := Some 6\<rparr>], queue = []\<rparr>"
proof -
  let ?d = "exDatabase [exJob\<lparr>status := ProofReady, last_retry_at := Some 6\<rparr>]"
  let ?st = "\<lparr>db = ?d, queue = []\<rparr>"
  let ?L = "exListener [''A'', ''B'']"
  have c: "createJob emptyDatabase exJob = Inr (exDatabase [exJob], 1)"
    by (simp add: createJob_def emptyDatabase_def exJob_def exDatabase_def Let_def)
  have u: "updateJobStatus (exDatabase [exJob]) 1 ProofReady None 6 = ?d"
    by (simp add: updateJobStatus_def exDatabase_def exJob_def updateRow_def Let_def)
  have "reachableDB ?d"
    using reachableDB.update[OF reachableDB.create[OF reachableDB.init c], of 1 ProofReady None 6]
    by (simp only: u)
  then have r: "reachableDB (db ?st)" by simp
  have b: "baseJobId ?L exEvent = ''A-0xaa-2''" by (rule ex_baseJobId)
  have e: "uniqueIdFor (baseJobId ?L exEvent) ''B'' \<in> unique_id ` set (jobs (db ?st))"
    by (simp add: b uniqueIdFor_def exDatabase_def exJob_def)
  from unique_id_at_most_one_row[OF r] have
    one: "length (filter (\<lambda>row. unique_id row = ''A-0xaa-2-B'') (jobs (db ?st))) \<le> 1"
    and two: "uniqueIdFor (baseJobId ?L exEvent) ''B'' \<in> unique_id ` set (jobs (db ?st)) \<longrightarrow>
      (case createJobForDestination ?L (baseJobId ?L exEvent) exEvent exMapping ''B'' exEventData 9 ?st of
         Inr st' \<Rightarrow> st' = ?st
       | Inl e \<Rightarrow> getDestinationCallDetails ?L exMapping ''B'' = Inl e)"
    by blast+
  from two e have
    "createJobForDestination ?L ''A-0xaa-2'' exEvent exMapping ''B'' exEventData 9 ?st = Inr ?st"
    by (simp add: b ex_details split: sum.splits)
  with one show ?thesis by simp
qed

subsection \<open>Facts about updateJobStatus\<close>

lemma updateRow_fields:
  "updateRow newStatus additionalData now row =
     row\<lparr>status := newStatus,
         last_retry_at := Some now,
         proof_data := patchedColumn additionalData patch_proof_data (proof_data row),
         dest_tx_hash := patchedColumn additionalData patch_dest_tx_hash (dest_tx_hash row),
         error_message := patchedColumn additionalData patch_error_message (error_message row),
         completed_at := (if newStatus = Completed then Some now else completed_at row)\<rparr>"
  by (cases additionalData)
     (simp_all add: updateRow_def Let_def patchedColumn_def setColumn_def split: option.splits)

lemma retry_count_updateRow [simp]: "retry_count (updateRow s p now row) = retry_count row"
  by (simp add: updateRow_fields)

lemma job_id_updateRow [simp]: "job_id (updateRow s p now row) = job_id row"
  by (simp add: updateRow_fields)

subsection \<open>An invariant of the relayer\<close>

lemma status_updateRow [simp]: "status (updateRow s p now row) = s"
  by (simp add: updateRow_fields)

lemma completed_at_updateRow [simp]:
  "completed_at (updateRow s p now row) = (if s = Completed then Some now else completed_at row)"
  by (simp add: updateRow_fields)

lemma set_jobs_updateJobStatus:
  "set (jobs (updateJobStatus d i s p now))
     = (\<lambda>row. if job_id row = Some i then updateRow s p now row else row) ` set (jobs d)"
  by (simp add: updateJobStatus_def)

lemma ids_updateJobStatus [simp]:
  "map job_id (jobs (updateJobStatus d i s p now)) = map job_id (jobs d)"
  by (simp add: updateJobStatus_def comp_def cong: map_cong)

lemma seq_updateJobStatus [simp]:
  "sqlite_sequence (updateJobStatus d i s p now) = sqlite_sequence d"
  by (simp add: updateJobStatus_def)

lemma set_jobs_incrementRetryCount:
  "set (jobs (incrementRetryCount d i now))
     = (\<lambda>row. if job_id row = Some i
               then row\<lparr>retry_count := retry_count row + 1, last_retry_at := Some now\<rparr> else row)
       ` set (jobs d)"
  by (simp add: incrementRetryCount_def)

lemma ids_incrementRetryCount [simp]:
  "map job_id (jobs (incrementRetryCount d i now)) = map job_id (jobs d)"
  by (simp add: incrementRetryCount_def comp_def cong: map_cong)

lemma seq_incrementRetryCount [simp]:
  "sqlite_sequence (incrementRetryCount d i now) = sqlite_sequence d"
  by (simp add: incrementRetryCount_def)

lemma heldJob_not_completed:
  "storeInvariant d \<Longrightarrow> heldJob d j \<Longrightarrow> row \<in> set (jobs d) \<Longrightarrow> job_id row = job_id j
     \<Longrightarrow> completed_at row = None \<and> status row \<noteq> Completed \<and> retry_count row = retry_count j"
  by (auto simp: storeInvariant_def heldJob_def)

lemma storeInvariant_update:
  assumes "storeInvariant d" and "heldJob d j" and "job_id j = Some i" and "s \<noteq> Completed"
  shows "storeInvariant (updateJobStatus d i s p now)"
proof -
  have "\<And>row. row \<in> set (jobs d) \<Longrightarrow> job_id row = Some i \<Longrightarrow> completed_at row = None"
    using heldJob_not_completed[OF assms(1,2)] assms(3) by simp
  with assms(1,4) show ?thesis
    by (auto simp: storeInvariant_def set_jobs_updateJobStatus)
qed

lemma storeInvariant_complete:
  assumes "storeInvariant d"
  shows "storeInvariant (updateJobStatus d i Completed p now)"
  using assms by (auto simp: storeInvariant_def set_jobs_updateJobStatus)

lemma storeInvariant_increment:
  assumes "storeInvariant d" and "heldJob d j" and "job_id j = Some i" and "retry_count j < 3"
  shows "storeInvariant (incrementRetryCount d i now)"
proof -
  have "\<And>row. row \<in> set (jobs d) \<Longrightarrow> job_id row = Some i \<Longrightarrow> retry_count row < 3"
    using heldJob_not_completed[OF assms(1,2)] assms(3,4) by simp
  with assms(1) show ?thesis
    by (fastforce simp: storeInvariant_def set_jobs_incrementRetryCount)
qed

lemma heldJob_update:
  assumes "heldJob d k" and "s \<noteq> Completed"
  shows "heldJob (updateJobStatus d i s p now) k"
  using assms by (auto simp: heldJob_def set_jobs_updateJobStatus)

lemma heldJob_update_other:
  assumes "heldJob d k" and "job_id k \<noteq> Some i"
  shows "heldJob (updateJobStatus d i s p now) k"
  using assms by (auto simp: heldJob_def set_jobs_updateJobStatus)

lemma heldJob_increment_other:
  assumes "heldJob d k" and "job_id k \<noteq> Some i"
  shows "heldJob (incrementRetryCount d i now) k"
  using assms by (auto simp: heldJob_def set_jobs_incrementRetryCount)

lemma heldJob_increment_self:
  assumes "heldJob d j" and "job_id j = Some i"
  shows "heldJob (incrementRetryCount d i now) (j\<lparr>retry_count := retry_count j + 1\<rparr>)"
  using assms by (auto simp: heldJob_def set_jobs_incrementRetryCount)

lemma heldJob_copy:
  "heldJob d j \<Longrightarrow> job_id j' = job_id j \<Longrightarrow> retry_count j' = retry_count j \<Longrightarrow> heldJob d j'"
  by (simp add: heldJob_def)

text \<open>The writes of a handler that holds the record \<open>j\<close>.\<close>

lemma inv_update:
  assumes "relayerInvariant (j # work) st" and "job_id j = Some i" and "s \<noteq> Completed"
  shows "relayerInvariant (j # work) (st\<lparr>db := updateJobStatus (db st) i s p now\<rparr>)"
proof -
  from assms(1) have h: "heldJob (db st) j" by (simp add: relayerInvariant_def)
  from assms(1) storeInvariant_update[OF _ h assms(2,3)] heldJob_update[OF _ assms(3)]
  show ?thesis by (simp add: relayerInvariant_def)
qed

lemma inv_complete:
  assumes "relayerInvariant (j # work) st" and "job_id j = Some i"
  shows "relayerInvariant work (st\<lparr>db := updateJobStatus (db st) i Completed p now\<rparr>)"
proof -
  from assms have "\<forall>k \<in> set (work @ queue st). job_id k \<noteq> Some i"
    by (auto simp: relayerInvariant_def image_iff)
  with assms(1) storeInvariant_complete heldJob_update_other show ?thesis
    by (simp add: relayerInvariant_def)
qed

lemma inv_push:
  assumes "relayerInvariant (j # work) st" and "job_id j' = job_id j" and "retry_count j' = retry_count j"
  shows "relayerInvariant work (addJob j' st)"
proof -
  from assms(1) have h: "heldJob (db st) j" by (simp add: relayerInvariant_def)
  from assms(1,2) heldJob_copy[OF h assms(2,3)] show ?thesis
    by (auto simp: relayerInvariant_def addJob_def)
qed

lemma inv_increment:
  assumes "relayerInvariant (j # work) st" and "job_id j = Some i" and "retry_count j < 3"
  shows "relayerInvariant (j\<lparr>retry_count := retry_count j + 1\<rparr> # work)
           (st\<lparr>db := incrementRetryCount (db st) i now\<rparr>)"
proof -
  from assms(1) have h: "heldJob (db st) j" by (simp add: relayerInvariant_def)
  from assms have o: "\<forall>k \<in> set (work @ queue st). job_id k \<noteq> Some i"
    by (auto simp: relayerInvariant_def image_iff)
  from assms(1) o storeInvariant_increment[OF _ h assms(2,3)] heldJob_increment_self[OF h assms(2)]
    heldJob_increment_other
  show ?thesis by (simp add: relayerInvariant_def)
qed

lemma inv_load:
  assumes "storeInvariant d" and "set rows \<subseteq> set (jobs d)" and "distinct rows"
      and "\<forall>row \<in> set rows. status row \<noteq> Completed"
  shows "relayerInvariant [] \<lparr>db = d, queue = rows\<rparr>"
proof -
  from assms(1) have inj: "inj_on job_id (set (jobs d))"
    by (simp add: storeInvariant_def distinct_map)
  then have "inj_on job_id (set rows)" using assms(2) by (rule inj_on_subset)
  with assms(3) have dist: "distinct (map job_id rows)" by (simp add: distinct_map)
  have "heldJob d j" if "j \<in> set rows" for j
  proof -
    from that assms(2) have jd: "j \<in> set (jobs d)" by auto
    have "row = j" if "row \<in> set (jobs d)" "job_id row = job_id j" for row
      using inj that jd by (auto dest: inj_onD)
    with jd assms(1,4) \<open>j \<in> set rows\<close> show ?thesis
      by (auto simp: heldJob_def storeInvariant_def)
  qed
  with assms(1) dist show ?thesis by (simp add: relayerInvariant_def)
qed

lemma inv_loadPendingJobs:
  assumes "storeInvariant d"
  shows "relayerInvariant [] (loadPendingJobs \<lparr>db = d, queue = []\<rparr>)"
proof -
  from assms have "distinct (jobs d)" by (simp add: storeInvariant_def distinct_map)
  then have "relayerInvariant [] \<lparr>db = d, queue = getPendingJobs d\<rparr>"
    by (intro inv_load[OF assms]) (auto simp: getPendingJobs_def)
  then show ?thesis by (simp add: loadPendingJobs_def)
qed

text \<open>The same steps when other handlers wait.\<close>

lemma relayerInvariant_rotate:
  "relayerInvariant (j # work @ others) st = relayerInvariant (work @ others @ [j]) st"
  by (auto simp: relayerInvariant_def)

lemma waitingJob_update_other:
  "waitingJob d h \<Longrightarrow> handlerId h \<noteq> i \<Longrightarrow> waitingJob (updateJobStatus d i s p now) h"
  by (auto simp: waitingJob_def set_jobs_updateJobStatus)

lemma waitingJob_increment:
  "waitingJob d h \<Longrightarrow> waitingJob (incrementRetryCount d i now) h"
  by (auto simp: waitingJob_def set_jobs_incrementRetryCount)

lemma sys_others:
  assumes "systemInvariant (j # work) st waiting" and "job_id j = Some i"
  shows "\<forall>h \<in> set waiting. handlerId h \<noteq> i"
proof
  fix h assume h: "h \<in> set waiting"
  with assms(1) have "job_id (handlerJob h) = Some (handlerId h)"
    by (simp add: systemInvariant_def waitingJob_def)
  moreover from assms(1) h have "job_id (handlerJob h) \<noteq> job_id j"
    by (auto simp: systemInvariant_def relayerInvariant_def image_iff)
  ultimately show "handlerId h \<noteq> i" using assms(2) by auto
qed

lemma sys_update:
  assumes "systemInvariant (j # work) st waiting" and "job_id j = Some i" and "s \<noteq> Completed"
  shows "systemInvariant (j # work) (st\<lparr>db := updateJobStatus (db st) i s p now\<rparr>) waiting"
proof -
  from assms(1) have "relayerInvariant (j # (work @ map handlerJob waiting)) st"
    by (simp add: systemInvariant_def)
  from inv_update[OF this assms(2,3)] sys_others[OF assms(1,2)] assms(1)
  show ?thesis by (simp add: systemInvariant_def waitingJob_update_other)
qed

lemma sys_complete:
  assumes "systemInvariant (j # work) st waiting" and "job_id j = Some i"
  shows "systemInvariant work (st\<lparr>db := updateJobStatus (db st) i Completed p now\<rparr>) waiting"
proof -
  from assms(1) have "relayerInvariant (j # (work @ map handlerJob waiting)) st"
    by (simp add: systemInvariant_def)
  from inv_complete[OF this assms(2)] sys_others[OF assms(1,2)] assms(1)
  show ?thesis by (simp add: systemInvariant_def waitingJob_update_other)
qed

lemma sys_push:
  assumes "systemInvariant (j # work) st waiting" and "job_id j' = job_id j"
      and "retry_count j' = retry_count j"
  shows "systemInvariant work (addJob j' st) waiting"
proof -
  from assms(1) have "relayerInvariant (j # (work @ map handlerJob waiting)) st"
    by (simp add: systemInvariant_def)
  from inv_push[OF this assms(2,3)] assms(1)
  show ?thesis by (simp add: systemInvariant_def addJob_def)
qed

lemma sys_increment:
  assumes "systemInvariant (j # work) st waiting" and "job_id j = Some i" and "retry_count j < 3"
  shows "systemInvariant (j\<lparr>retry_count := retry_count j + 1\<rparr> # work)
           (st\<lparr>db := incrementRetryCount (db st) i now\<rparr>) waiting"
proof -
  from assms(1) have "relayerInvariant (j # (work @ map handlerJob waiting)) st"
    by (simp add: systemInvariant_def)
  from inv_increment[OF this assms(2,3)] assms(1)
  show ?thesis by (simp add: systemInvariant_def waitingJob_increment)
qed

lemma sys_drop:
  "systemInvariant (j # work) st waiting \<Longrightarrow> systemInvariant work st waiting"
  by (simp add: systemInvariant_def relayerInvariant_def)

lemma sys_handleJobError:
  assumes "systemInvariant (j # work) st waiting" and "job_id j = Some i"
  shows "systemInvariant work (handleJobError now i j e st) waiting"
  unfolding handleJobError_def
  by (rule sys_push[OF sys_update[OF assms]]) simp_all

lemma sys_settle:
  assumes "case outcome of
             (None, st') \<Rightarrow> systemInvariant work st' waiting
           | (Some e, st') \<Rightarrow> systemInvariant (j # work) st' waiting"
      and "job_id j = Some i"
  shows "systemInvariant work (settle now i j outcome) waiting"
  using assms sys_handleJobError
  by (auto simp: settle_def split: prod.splits option.splits)

text \<open>A handler starts to wait, and a waiting handler is taken up again.\<close>

lemma sys_suspend:
  assumes "systemInvariant (j # work) st waiting" and "waitingJob (db st) h" and "handlerJob h = j"
  shows "systemInvariant work st (waiting @ [h])"
proof -
  from assms(1) have "relayerInvariant (j # work @ map handlerJob waiting) st"
    by (simp add: systemInvariant_def)
  then have "relayerInvariant (work @ map handlerJob waiting @ [j]) st"
    by (simp only: relayerInvariant_rotate)
  with assms show ?thesis by (simp add: systemInvariant_def)
qed

lemma sys_resume:
  assumes "systemInvariant work st waiting" and "h \<in> set waiting"
  shows "systemInvariant (handlerJob h # work) st (remove1 h waiting)
       \<and> job_id (handlerJob h) = Some (handlerId h)"
proof -
  from assms(2) obtain pre post where w: "waiting = pre @ h # post" and n: "h \<notin> set pre"
    by (auto dest: split_list_first)
  from n have r: "remove1 h waiting = pre @ post" by (simp add: w remove1_append)
  from assms(1) have "relayerInvariant (handlerJob h # work @ map handlerJob (pre @ post)) st"
    by (auto simp: systemInvariant_def relayerInvariant_def w)
  moreover from assms(1) have "\<forall>k \<in> set (pre @ post). waitingJob (db st) k"
    by (auto simp: systemInvariant_def w)
  moreover from assms have "job_id (handlerJob h) = Some (handlerId h)"
    by (simp add: systemInvariant_def waitingJob_def)
  ultimately show ?thesis by (simp add: systemInvariant_def r)
qed

lemma waitingJob_after_update:
  assumes "job_id (handlerJob h) = Some (handlerId h)" and "statusWhileWaiting h = s"
  shows "waitingJob (updateJobStatus d (handlerId h) s p now) h"
  using assms by (auto simp: waitingJob_def set_jobs_updateJobStatus)

text \<open>The handlers, part by part.\<close>

lemma sys_beginProofRequest:
  assumes "systemInvariant (j # work) st waiting" and "job_id j = Some i"
  shows "case beginProofRequest now i j st of
           (None, st') \<Rightarrow> systemInvariant work st' waiting
         | (Some h, st') \<Rightarrow> systemInvariant work st' (waiting @ [h])"
proof (cases "proof_required j")
  case False
  then show ?thesis
    using sys_push[OF sys_update[OF assms, of ProofReady None now], of "j\<lparr>status := ProofReady\<rparr>"]
    by (simp add: beginProofRequest_def)
next
  case True
  let ?st1 = "st\<lparr>db := updateJobStatus (db st) i ProofRequested None now\<rparr>"
  have one: "systemInvariant (j # work) ?st1 waiting"
    by (rule sys_update[OF assms]) simp
  have "waitingJob (db ?st1) (AwaitingProof i j)"
    using waitingJob_after_update[of "AwaitingProof i j" ProofRequested "db st" None now] assms(2)
    by simp
  from sys_suspend[OF one this] True show ?thesis
    by (simp add: beginProofRequest_def)
qed

lemma sys_beginExecution:
  assumes "systemInvariant (j # work) st waiting" and "job_id j = Some i"
  shows "case beginExecution now i j st of
           (None, st') \<Rightarrow> systemInvariant work st' waiting
         | (Some h, st') \<Rightarrow> systemInvariant work st' (waiting @ [h])"
proof -
  let ?st1 = "st\<lparr>db := updateJobStatus (db st) i Executing None now\<rparr>"
  have one: "systemInvariant (j # work) ?st1 waiting"
    by (rule sys_update[OF assms]) simp
  have "waitingJob (db ?st1) (AwaitingExecution i j)"
    using waitingJob_after_update[of "AwaitingExecution i j" Executing "db st" None now] assms(2)
    by simp
  from sys_suspend[OF one this] show ?thesis
    by (simp add: beginExecution_def)
qed

lemma sys_processRetry:
  assumes "systemInvariant (j # work) st waiting" and "job_id j = Some i"
  shows "case processRetry now i j st of
           (None, st') \<Rightarrow> systemInvariant work st' waiting
         | (Some e, st') \<Rightarrow> systemInvariant (j # work) st' waiting"
proof -
  let ?early = "(case last_retry_at j of Some t \<Rightarrow> now - t | None \<Rightarrow> retryDelayMs + 1) < retryDelayMs"
  show ?thesis
  proof (cases ?early)
    case True
    with sys_push[OF assms(1), of j] show ?thesis by (simp add: processRetry_def Let_def)
  next
    case False
    show ?thesis
    proof (cases "retry_count j \<ge> maxRetries")
      case True
      with False sys_drop[OF assms(1)] show ?thesis by (simp add: processRetry_def Let_def)
    next
      case few: False
      let ?new = "if proof_required j \<and> proof_data j = None then Pending else ProofReady"
      let ?j1 = "j\<lparr>retry_count := retry_count j + 1\<rparr>"
      let ?st1 = "st\<lparr>db := incrementRetryCount (db st) i now\<rparr>"
      let ?st2 = "?st1\<lparr>db := updateJobStatus (db ?st1) i ?new None now\<rparr>"
      from few have lt: "retry_count j < 3" by (simp add: maxRetries_def)
      have one: "systemInvariant (?j1 # work) ?st1 waiting"
        by (rule sys_increment[OF assms lt])
      have two: "systemInvariant (?j1 # work) ?st2 waiting"
        by (rule sys_update[OF one]) (simp_all add: assms(2))
      have "systemInvariant work
              (addJob (j\<lparr>status := ?new, retry_count := retry_count j + 1\<rparr>) ?st2) waiting"
        by (rule sys_push[OF two]) simp_all
      with False few show ?thesis by (simp add: processRetry_def Let_def)
    qed
  qed
qed

lemma sys_startProcessor:
  assumes "systemInvariant (j # work) st waiting" and "job_id j = Some i"
  shows "case startProcessor p now i j st of
           (None, st') \<Rightarrow> systemInvariant work st' waiting
         | (Some h, st') \<Rightarrow> systemInvariant work st' (waiting @ [h])"
proof (cases p)
  case ProcessProofRequest
  with sys_beginProofRequest[OF assms] show ?thesis by simp
next
  case ProcessExecution
  with sys_beginExecution[OF assms] show ?thesis by simp
next
  case ProcessRetry
  with sys_settle[OF sys_processRetry[OF assms] assms(2)] show ?thesis by simp
qed

lemma sys_startJob:
  assumes "systemInvariant (j # work) st waiting" and "startJob now j (st, waiting) = (st', waiting')"
  shows "systemInvariant work st' waiting'"
proof (cases "job_id j")
  case None
  with sys_drop[OF assms(1)] assms(2) show ?thesis by (simp add: startJob_def)
next
  case (Some i)
  show ?thesis
  proof (cases "i = 0 \<or> registerProcessors (status j) = None")
    case True
    with Some sys_drop[OF assms(1)] assms(2) show ?thesis
      by (auto simp: startJob_def split: if_splits)
  next
    case False
    then obtain p where p: "registerProcessors (status j) = Some p" and i: "i \<noteq> 0" by auto
    from sys_startProcessor[OF assms(1) Some, of p now] Some p i assms(2) show ?thesis
      by (auto simp: startJob_def split: prod.splits option.splits)
  qed
qed

lemma sys_fold_startJob:
  "systemInvariant js st waiting \<Longrightarrow>
     fold (\<lambda>job. startJob (clock job) job) js (st, waiting) = (st', waiting')
     \<Longrightarrow> systemInvariant [] st' waiting'"
proof (induction js arbitrary: st waiting)
  case Nil
  then show ?case by simp
next
  case (Cons j js)
  obtain st1 waiting1 where s: "startJob (clock j) j (st, waiting) = (st1, waiting1)"
    by (cases "startJob (clock j) j (st, waiting)")
  from sys_startJob[OF Cons.prems(1) s] Cons.prems(2) s show ?case
    by (auto intro: Cons.IH)
qed

lemma sys_pull_failed:
  assumes "systemInvariant [] st waiting" and "queue st = []"
  shows "systemInvariant [] (st\<lparr>queue := getFailedJobs (db st) maxRetries\<rparr>) waiting"
proof -
  define rows where "rows = getFailedJobs (db st) maxRetries"
  from assms(1) have si: "storeInvariant (db st)"
    and dw: "distinct (map job_id (map handlerJob waiting))"
    and hw: "\<forall>j \<in> set (map handlerJob waiting). heldJob (db st) j"
    and ww: "\<forall>h \<in> set waiting. waitingJob (db st) h"
    by (simp_all add: systemInvariant_def relayerInvariant_def)
  from si have inj: "inj_on job_id (set (jobs (db st)))" and dj: "distinct (jobs (db st))"
    by (simp_all add: storeInvariant_def distinct_map)
  have sub: "set rows \<subseteq> set (jobs (db st))"
    by (auto simp: rows_def getFailedJobs_def)
  have failed: "\<forall>row \<in> set rows. status row = Failed"
    by (simp add: rows_def getFailedJobs_def)
  from dj have "distinct rows" by (simp add: rows_def getFailedJobs_def)
  moreover from inj sub have "inj_on job_id (set rows)" by (rule inj_on_subset)
  ultimately have dr: "distinct (map job_id rows)" by (simp add: distinct_map)
  have held: "heldJob (db st) row" if "row \<in> set rows" for row
  proof -
    from that sub have rd: "row \<in> set (jobs (db st))" by auto
    have same: "x = row" if "x \<in> set (jobs (db st))" "job_id x = job_id row" for x
      using inj that rd by (auto dest: inj_onD)
    from rd si have "\<exists>i. job_id row = Some i \<and> i \<le> sqlite_sequence (db st)"
      by (simp add: storeInvariant_def)
    moreover from same that failed
    have "\<forall>x \<in> set (jobs (db st)). job_id x = job_id row \<longrightarrow>
            retry_count x = retry_count row \<and> status x \<noteq> Completed"
      by fastforce
    ultimately show ?thesis by (simp add: heldJob_def)
  qed
  have apart: "job_id (handlerJob h) \<noteq> job_id row" if "h \<in> set waiting" "row \<in> set rows" for h row
  proof
    assume e: "job_id (handlerJob h) = job_id row"
    from that(1) ww have w: "waitingJob (db st) h" by simp
    from that(2) sub have rd: "row \<in> set (jobs (db st))" by auto
    from w e rd have "status row = statusWhileWaiting h" by (simp add: waitingJob_def)
    moreover from that(2) failed have "status row = Failed" by simp
    ultimately show False by (cases h) simp_all
  qed
  then have "(\<lambda>h. job_id (handlerJob h)) ` set waiting \<inter> job_id ` set rows = {}"
    by (auto simp: image_iff)
  with dw dr have D: "distinct (map job_id (map handlerJob waiting @ rows))"
    by (simp add: comp_def)
  from hw held have H: "\<forall>j \<in> set (map handlerJob waiting @ rows). heldJob (db st) j"
    by auto
  from si D H ww show ?thesis
    by (simp add: systemInvariant_def relayerInvariant_def rows_def)
qed

lemma relayerInvariant_take:
  assumes "relayerInvariant work st"
  shows "relayerInvariant (take n (queue st) @ work) (st\<lparr>queue := drop n (queue st)\<rparr>)"
proof -
  define a where "a = take n (queue st)"
  define b where "b = drop n (queue st)"
  have q: "queue st = a @ b" by (simp add: a_def b_def)
  from assms have "storeInvariant (db st)" and "distinct (map job_id (work @ a @ b))"
    and "\<forall>j \<in> set (work @ a @ b). heldJob (db st) j"
    by (simp_all add: relayerInvariant_def q)
  then have "relayerInvariant (a @ work) (st\<lparr>queue := b\<rparr>)"
    by (auto simp: relayerInvariant_def)
  then show ?thesis by (simp add: a_def b_def)
qed

lemma sys_take:
  assumes "systemInvariant [] st waiting"
  shows "systemInvariant (take n (queue st)) (st\<lparr>queue := drop n (queue st)\<rparr>) waiting"
  using assms relayerInvariant_take[of "map handlerJob waiting" st n]
  by (simp add: systemInvariant_def)

lemma sys_startQueue:
  assumes "systemInvariant [] st waiting" and "startQueue clock (st, waiting) = (st', waiting')"
  shows "systemInvariant [] st' waiting'"
proof (cases "queue st = []")
  case True
  with sys_pull_failed[OF assms(1) True] assms show ?thesis
    by (auto simp: startQueue_def Let_def split: if_splits)
next
  case False
  with sys_fold_startJob[OF sys_take[OF assms(1), of 5], of clock st' waiting'] assms(2)
  show ?thesis by (simp add: startQueue_def Let_def)
qed

lemma sys_proof_answer:
  assumes "systemInvariant [] st waiting" and "AwaitingProof i j \<in> set waiting"
  shows "systemInvariant [] (settle now i j (endProofRequest now i j answer st))
           (remove1 (AwaitingProof i j) waiting)"
proof -
  from sys_resume[OF assms] have r: "systemInvariant [j] st (remove1 (AwaitingProof i j) waiting)"
    and i: "job_id j = Some i" by simp_all
  show ?thesis
  proof (cases answer)
    case (Inl e)
    with sys_handleJobError[OF r i] show ?thesis
      by (simp add: endProofRequest_def settle_def)
  next
    case (Inr pr)
    have "systemInvariant []
            (addJob (j\<lparr>status := ProofReady, proof_data := Some pr\<rparr>)
               (st\<lparr>db := updateJobStatus (db st) i ProofReady
                             (Some (noPatch\<lparr>patch_proof_data := Some pr\<rparr>)) now\<rparr>))
            (remove1 (AwaitingProof i j) waiting)"
      by (rule sys_push[OF sys_update[OF r i]]) simp_all
    with Inr show ?thesis by (simp add: endProofRequest_def settle_def)
  qed
qed

lemma sys_execution_answer:
  assumes "systemInvariant [] st waiting" and "AwaitingExecution i j \<in> set waiting"
  shows "systemInvariant [] (settle now i j (endExecution now i j answer st))
           (remove1 (AwaitingExecution i j) waiting)"
proof -
  from sys_resume[OF assms] have r: "systemInvariant [j] st (remove1 (AwaitingExecution i j) waiting)"
    and i: "job_id j = Some i" by simp_all
  show ?thesis
  proof (cases answer)
    case (Inl e)
    with sys_handleJobError[OF r i] show ?thesis
      by (simp add: endExecution_def settle_def)
  next
    case (Inr txHash)
    with sys_complete[OF r i] show ?thesis by (simp add: endExecution_def settle_def)
  qed
qed

text \<open>The listener's writes and the deletions.\<close>

lemma sys_createJobForDestination:
  assumes "systemInvariant [] st waiting"
      and "createJobForDestination L base event m destChain eventData now st = Inr st'"
  shows "systemInvariant [] st' waiting"
proof (cases "st' = st")
  case True
  with assms(1) show ?thesis by simp
next
  case False
  let ?n = "sqlite_sequence (db st)"
  let ?held = "map handlerJob waiting @ queue st"
  from assms(2) False obtain row job where
    d: "db st' = (db st)\<lparr>jobs := jobs (db st) @ [row], sqlite_sequence := ?n + 1\<rparr>"
    and q: "queue st' = queue st @ [job]"
    and r: "job_id row = Some (?n + 1)" "retry_count row = 0" "status row = Pending"
           "completed_at row = None"
    and j: "job_id job = Some (?n + 1)" "retry_count job = 0"
    by (auto simp: createJobForDestination_def Let_def createJob_def addJob_def
        split: sum.splits prod.splits if_splits)
  from assms(1) have si: "storeInvariant (db st)"
    and dq: "distinct (map job_id ?held)"
    and hq: "\<forall>k \<in> set ?held. heldJob (db st) k"
    and wq: "\<forall>h \<in> set waiting. waitingJob (db st) h"
    by (simp_all add: systemInvariant_def relayerInvariant_def)
  from si have old: "\<forall>x \<in> set (jobs (db st)). \<exists>i. job_id x = Some i \<and> i \<le> ?n"
    by (simp add: storeInvariant_def)
  then have fresh: "Some (?n + 1) \<notin> job_id ` set (jobs (db st))" by force
  from hq have oldq: "\<forall>k \<in> set ?held. \<exists>i. job_id k = Some i \<and> i \<le> ?n"
    by (simp add: heldJob_def)
  then have freshq: "Some (?n + 1) \<notin> job_id ` set ?held" by force
  have s': "storeInvariant (db st')"
    using si r fresh by (fastforce simp: storeInvariant_def d)
  have dq': "distinct (map job_id (?held @ [job]))"
    using dq freshq j by (auto simp: image_iff)
  have hnew: "heldJob (db st') job"
    using j r fresh by (auto simp: heldJob_def d image_iff)
  have hold: "heldJob (db st') k" if "k \<in> set ?held" for k
  proof -
    from that hq have h: "heldJob (db st) k" by simp
    from that oldq have "job_id k \<noteq> Some (?n + 1)" by force
    with h r show ?thesis by (fastforce simp: heldJob_def d)
  qed
  have wait: "waitingJob (db st') h" if "h \<in> set waiting" for h
  proof -
    from that wq have w: "waitingJob (db st) h" by simp
    then have "job_id (handlerJob h) = Some (handlerId h)" by (simp add: waitingJob_def)
    moreover from that oldq have "job_id (handlerJob h) \<noteq> Some (?n + 1)" by force
    ultimately have "handlerId h \<noteq> ?n + 1" by auto
    with w r show ?thesis by (auto simp: waitingJob_def d)
  qed
  from s' dq' hnew hold wait show ?thesis
    by (auto simp: systemInvariant_def relayerInvariant_def q)
qed

lemma sys_delete:
  assumes "systemInvariant [] st waiting"
      and "jobs d' = filter keep (jobs (db st))" and "sqlite_sequence d' = sqlite_sequence (db st)"
  shows "systemInvariant [] (st\<lparr>db := d'\<rparr>) waiting"
proof -
  from assms(1) have si: "storeInvariant (db st)"
    and dh: "distinct (map job_id (map handlerJob waiting @ queue st))"
    and hh: "\<forall>j \<in> set (map handlerJob waiting @ queue st). heldJob (db st) j"
    and ww: "\<forall>h \<in> set waiting. waitingJob (db st) h"
    by (simp_all add: systemInvariant_def relayerInvariant_def)
  have sub: "\<And>row. row \<in> set (jobs d') \<Longrightarrow> row \<in> set (jobs (db st))"
    by (simp add: assms(2))
  from si have "distinct (map job_id (jobs d'))"
    by (simp add: storeInvariant_def assms(2) distinct_map_filter)
  moreover from si sub
  have "\<forall>row \<in> set (jobs d'). retry_count row \<le> 3
          \<and> ((completed_at row \<noteq> None) = (status row = Completed))
          \<and> (\<exists>i. job_id row = Some i \<and> i \<le> sqlite_sequence d')"
    unfolding storeInvariant_def assms(3) by blast
  ultimately have si': "storeInvariant d'" by (simp add: storeInvariant_def)
  from hh sub have hh': "\<forall>j \<in> set (map handlerJob waiting @ queue st). heldJob d' j"
    unfolding heldJob_def assms(3) by blast
  from ww sub have ww': "\<forall>h \<in> set waiting. waitingJob d' h"
    unfolding waitingJob_def by blast
  from si' dh hh' ww' show ?thesis
    by (simp add: systemInvariant_def relayerInvariant_def)
qed

lemma sys_cursor:
  assumes "systemInvariant [] st waiting"
  shows "systemInvariant [] (st\<lparr>db := updateLastProcessedBlock (db st) chain blk now\<rparr>) waiting"
  using assms
  by (rule sys_delete[where keep = "\<lambda>row. True"]) (simp_all add: updateLastProcessedBlock_def)

lemma reachable_invariant: "reachableState st waiting \<Longrightarrow> systemInvariant [] st waiting"
proof (induction rule: reachableState.induct)
  case boot
  show ?case
    by (simp add: systemInvariant_def relayerInvariant_def storeInvariant_def emptyDatabase_def)
next
  case (restart st waiting)
  then have "storeInvariant (db st)" by (simp add: systemInvariant_def relayerInvariant_def)
  from inv_loadPendingJobs[OF this] show ?case by (simp add: systemInvariant_def)
next
  case (tick st waiting clock st' waiting')
  from sys_startQueue[OF tick.IH tick.hyps(2)] show ?case .
next
  case (proof_answer st waiting jobId job now answer)
  from sys_proof_answer[OF proof_answer.IH proof_answer.hyps(2)] show ?case .
next
  case (execution_answer st waiting jobId job now answer)
  from sys_execution_answer[OF execution_answer.IH execution_answer.hyps(2)] show ?case .
next
  case (observe st waiting L base event m destChain eventData now st')
  from sys_createJobForDestination[OF observe.IH observe.hyps(2)] show ?case .
next
  case (cursor st waiting chain blk now)
  from cursor.IH show ?case by (rule sys_cursor)
next
  case (purge st waiting cutoff)
  from purge.IH show ?case by (rule sys_delete) (simp_all add: cleanup_def)
next
  case (remove st waiting jobId)
  from remove.IH show ?case by (rule sys_delete) (simp_all add: deleteJob_def)
next
  case (script st waiting)
  from script.IH show ?case by (rule sys_delete[where keep = "\<lambda>row. False"]) (simp_all add: dbClear_def)
next
  case (wipe st waiting)
  show ?case
    by (simp add: systemInvariant_def relayerInvariant_def storeInvariant_def clearJobs_def)
qed

lemma reachable_rows:
  assumes "reachableState st waiting" and "row \<in> set (jobs (db st))"
  shows "retry_count row \<le> 3 \<and> ((completed_at row \<noteq> None) = (status row = Completed))"
  using reachable_invariant[OF assms(1)] assms(2)
  by (simp add: systemInvariant_def relayerInvariant_def storeInvariant_def)


subsection \<open>The one-tick functions and the transition system\<close>

text \<open>
  \<open>processJob\<close>, which gives a handler its answer within the tick, is \<open>startJob\<close> followed
  by the answer to the handler that waits, if one does.
\<close>

lemma processJob_in_two_parts:
  "processJob env now job st
     = (case startJob now job (st, []) of (st1, started) \<Rightarrow> fold (answerHandler env now) started st1)"
proof (cases "job_id job")
  case None
  then show ?thesis by (simp add: processJob_def startJob_def)
next
  case (Some jobId)
  show ?thesis
  proof (cases "jobId = 0 \<or> registerProcessors (status job) = None")
    case True
    with Some show ?thesis by (auto simp: processJob_def startJob_def)
  next
    case False
    then obtain p where p: "registerProcessors (status job) = Some p" and i: "jobId \<noteq> 0" by auto
    show ?thesis
    proof (cases p)
      case ProcessProofRequest
      with Some p i show ?thesis
        by (simp add: processJob_def startJob_def processProofRequest_def beginProofRequest_def
            endProofRequest_def settle_def Let_def split: sum.splits)
    next
      case ProcessExecution
      with Some p i show ?thesis
        by (simp add: processJob_def startJob_def processExecution_def beginExecution_def
            endExecution_def executionOutcome_def settle_def Let_def split: sum.splits option.splits)
    next
      case ProcessRetry
      with Some p i show ?thesis
        by (simp add: processJob_def startJob_def settle_def split: prod.splits option.splits)
    qed
  qed
qed

text \<open>A sweep of a listener is a sequence of steps of the transition system.\<close>

lemma fold_invariant:
  assumes "\<And>x s. P s \<Longrightarrow> P (f x s)" and "P s"
  shows "P (fold f xs s)"
  using assms(2) by (induction xs arbitrary: s) (simp_all add: assms(1))

lemma reachable_createJobsForDestinations:
  "reachableState st waiting \<Longrightarrow>
     reachableState (createJobsForDestinations L base event m eventData now ds st) waiting"
proof (induction ds arbitrary: st)
  case Nil
  then show ?case by simp
next
  case (Cons d ds)
  show ?case
  proof (cases "createJobForDestination L base event m d eventData now st")
    case (Inl e)
    with Cons.prems show ?thesis by simp
  next
    case (Inr st')
    from Cons.IH[OF reachableState.observe[OF Cons.prems Inr]] Inr show ?thesis by simp
  qed
qed

lemma reachable_processEvent:
  "reachableState st waiting \<Longrightarrow> reachableState (processEvent L event m now st) waiting"
  by (auto simp: processEvent_def Let_def reachable_createJobsForDestinations split: sum.splits)

lemma reachable_processContractEvents:
  assumes "reachableState st waiting"
  shows "reachableState (processContractEvents L queryFilter contractName fromBlock toBlock now st) waiting"
  unfolding processContractEvents_def Let_def
proof (rule fold_invariant[where P = "\<lambda>s. reachableState s waiting"])
  fix m s
  assume s: "reachableState s waiting"
  show "reachableState
          (case queryFilter contractName m fromBlock toBlock of
             Inl e \<Rightarrow> s
           | Inr events \<Rightarrow> fold (\<lambda>event. processEvent L event m now) events s) waiting"
  proof (cases "queryFilter contractName m fromBlock toBlock")
    case (Inl e)
    with s show ?thesis by simp
  next
    case (Inr events)
    have "reachableState (fold (\<lambda>event. processEvent L event m now) events s) waiting"
      by (rule fold_invariant[where P = "\<lambda>s. reachableState s waiting"])
         (simp_all add: reachable_processEvent s)
    with Inr show ?thesis by simp
  qed
qed (rule assms)

lemma reachable_pollForEvents:
  assumes "reachableState st waiting"
  shows "reachableState (pollForEvents L queryFilter currentBlock now st) waiting"
proof (cases "sweepRange (blockConfirmations L) currentBlock (getLastProcessedBlock (db st) (chainName L))")
  case None
  with assms show ?thesis by (simp add: pollForEvents_def Let_def)
next
  case (Some range)
  obtain fromBlock toBlock where range: "range = (fromBlock, toBlock)" by (cases range)
  have "reachableState
          (fold (\<lambda>contractName. processContractEvents L queryFilter contractName fromBlock toBlock now)
             (contracts L) st) waiting"
    by (rule fold_invariant[where P = "\<lambda>s. reachableState s waiting"])
       (simp_all add: reachable_processContractEvents assms)
  from reachableState.cursor[OF this] Some range show ?thesis
    by (simp add: pollForEvents_def Let_def)
qed

subsection \<open>The sample run\<close>

lemma ex_sweep:
  "pollForEvents (exListener [''A'', ''B'']) exQueryOne 1000 5 exState
     = \<lparr>db = exSweptDatabase [exJob], queue = [exJob]\<rparr>"
proof -
  let ?L = "exListener [''A'', ''B'']"
  have l: "getLastProcessedBlock (db exState) ''A'' = 0"
    by (simp add: getLastProcessedBlock_def exState_def emptyDatabase_def)
  have r: "sweepRange (blockConfirmations ?L) 1000 0 = Some (1, 101)"
    by (simp add: sweepRange_def exListener_def Let_def)
  have c: "processContractEvents ?L exQueryOne ''Sender'' 1 101 5 exState
             = \<lparr>db = exDatabase [exJob], queue = [exJob]\<rparr>"
  proof -
    have "filter (\<lambda>m. sourceContractName (sourceEvent m) = ''Sender'' \<and> enabled m) (eventMappings ?L)
            = [exMapping]"
      by (simp add: exListener_def exMapping_def)
    then show ?thesis
      by (simp add: processContractEvents_def Let_def exQueryOne_def ex_processEvent)
  qed
  have k: "contracts ?L = [''Sender'']" "chainName ?L = ''A''" by (simp_all add: exListener_def)
  have u: "updateLastProcessedBlock (exDatabase [exJob]) ''A'' 101 5 = exSweptDatabase [exJob]"
    by (simp add: updateLastProcessedBlock_def exDatabase_def exSweptDatabase_def)
  show ?thesis
    by (simp add: pollForEvents_def l r k c u Let_def)
qed

lemma ex_tick_proof:
  "startQueue (\<lambda>job. 10) (\<lparr>db = exSweptDatabase [exJob], queue = [exJob]\<rparr>, [])
     = (\<lparr>db = exSweptDatabase [exProofRequestedRow], queue = []\<rparr>, [AwaitingProof 1 exJob])"
  by (simp add: startQueue_def startJob_def registerProcessors_def beginProofRequest_def
      updateJobStatus_def updateRow_def exSweptDatabase_def exJob_def exProofRequestedRow_def Let_def)

lemma ex_proof_answer:
  "settle 12 1 exJob
     (endProofRequest 12 1 exJob (Inr exProof) \<lparr>db = exSweptDatabase [exProofRequestedRow], queue = []\<rparr>)
     = \<lparr>db = exSweptDatabase [exProofReadyRow], queue = [exProofReadyJob]\<rparr>"
  by (simp add: settle_def endProofRequest_def addJob_def updateJobStatus_def updateRow_def
      setColumn_def noPatch_def exSweptDatabase_def exJob_def exProofRequestedRow_def
      exProofReadyRow_def exProofReadyJob_def Let_def)

lemma ex_tick_execute:
  "startQueue (\<lambda>job. 20) (\<lparr>db = exSweptDatabase [exProofReadyRow], queue = [exProofReadyJob]\<rparr>, [])
     = (\<lparr>db = exSweptDatabase [exExecutingRow], queue = []\<rparr>, [AwaitingExecution 1 exProofReadyJob])"
  by (simp add: startQueue_def startJob_def registerProcessors_def beginExecution_def
      updateJobStatus_def updateRow_def exSweptDatabase_def exJob_def exProofReadyRow_def
      exProofReadyJob_def exExecutingRow_def Let_def)

lemma ex_execution_answer:
  "settle 25 1 exProofReadyJob
     (endExecution 25 1 exProofReadyJob (Inr ''0xbb'') \<lparr>db = exSweptDatabase [exExecutingRow], queue = []\<rparr>)
     = \<lparr>db = exSweptDatabase [exCompletedRow], queue = []\<rparr>"
  by (simp add: settle_def endExecution_def updateJobStatus_def updateRow_def
      setColumn_def noPatch_def exSweptDatabase_def exJob_def exExecutingRow_def
      exCompletedRow_def Let_def)

lemma ex_reachable_proof_requested:
  "reachableState \<lparr>db = exSweptDatabase [exProofRequestedRow], queue = []\<rparr> [AwaitingProof 1 exJob]"
proof -
  have "reachableState exState []"
    using reachableState.boot by (simp add: exState_def)
  then have "reachableState (pollForEvents (exListener [''A'', ''B'']) exQueryOne 1000 5 exState) []"
    by (rule reachable_pollForEvents)
  then have "reachableState \<lparr>db = exSweptDatabase [exJob], queue = [exJob]\<rparr> []"
    by (simp only: ex_sweep)
  from reachableState.tick[OF this ex_tick_proof] show ?thesis .
qed

lemma ex_reachable_executing:
  "reachableState \<lparr>db = exSweptDatabase [exExecutingRow], queue = []\<rparr>
     [AwaitingExecution 1 exProofReadyJob]"
proof -
  have m: "AwaitingProof 1 exJob \<in> set [AwaitingProof 1 exJob]" by simp
  have r: "remove1 (AwaitingProof 1 exJob) [AwaitingProof 1 exJob] = []" by simp
  from reachableState.proof_answer[OF ex_reachable_proof_requested m,
         where now = 12 and answer = "Inr exProof"]
  have "reachableState \<lparr>db = exSweptDatabase [exProofReadyRow], queue = [exProofReadyJob]\<rparr> []"
    by (simp only: r ex_proof_answer)
  from reachableState.tick[OF this ex_tick_execute] show ?thesis .
qed

lemma ex_reachable_completed:
  "reachableState \<lparr>db = exSweptDatabase [exCompletedRow], queue = []\<rparr> []"
proof -
  have m: "AwaitingExecution 1 exProofReadyJob \<in> set [AwaitingExecution 1 exProofReadyJob]"
    by simp
  have r: "remove1 (AwaitingExecution 1 exProofReadyJob) [AwaitingExecution 1 exProofReadyJob] = []"
    by simp
  from reachableState.execution_answer[OF ex_reachable_executing m,
         where now = 25 and answer = "Inr ''0xbb''"]
  show ?thesis by (simp only: r ex_execution_answer)
qed

text \<open>
  A relayer that stops while the proof handler waits leaves the row in \<^verbatim>\<open>proof_requested\<close>;
  the next start loads it into the work list.
\<close>

lemma ex_reachable_after_crash:
  "reachableState \<lparr>db = exSweptDatabase [exProofRequestedRow], queue = [exProofRequestedRow]\<rparr> []"
  using reachableState.restart[OF ex_reachable_proof_requested]
  by (simp add: loadPendingJobs_def getPendingJobs_def exSweptDatabase_def exProofRequestedRow_def)

subsection \<open>The effect of updateJobStatus\<close>

text \<open>
  C10. On a row with the given id \<^verbatim>\<open>updateJobStatus\<close> sets the status and sets
  \<^verbatim>\<open>last_retry_at\<close> to the current time; it writes \<^verbatim>\<open>completed_at\<close> (the current time)
  exactly when the new status is completed and leaves it as it was otherwise. The three
  patch columns take the patch's value when the patch names them; every other field of the
  row, and every row with another id, is unchanged. So a row that is completed after the call
  has \<^verbatim>\<open>completed_at\<close> set, and a row that had none before the call has it set afterwards
  if and only if its status is completed. In every state the relayer reaches, with handlers
  waiting at their awaits, ticks and sweeps interleaved, after restarts and deletions,
  \<^verbatim>\<open>completed_at\<close> is set exactly on the completed rows: each call is made by the one
  handler that holds the job's record, and no record is held of a completed job.
\<close>

theorem updateJobStatus_effect:
  assumes "d' = updateJobStatus d jobId newStatus additionalData now"
      and "i < length (jobs d)"
      and "row = jobs d ! i"
      and "row' = jobs d' ! i"
  shows "length (jobs d') = length (jobs d)
       \<and> (job_id row \<noteq> Some jobId \<longrightarrow> row' = row)
       \<and> (job_id row = Some jobId \<longrightarrow>
             status row' = newStatus
           \<and> last_retry_at row' = Some now
           \<and> completed_at row' = (if newStatus = Completed then Some now else completed_at row)
           \<and> (status row' = Completed \<longrightarrow> completed_at row' \<noteq> None)
           \<and> (completed_at row = None \<longrightarrow> (completed_at row' \<noteq> None \<longleftrightarrow> status row' = Completed))
           \<and> proof_data row' = patchedColumn additionalData patch_proof_data (proof_data row)
           \<and> dest_tx_hash row' = patchedColumn additionalData patch_dest_tx_hash (dest_tx_hash row)
           \<and> error_message row' = patchedColumn additionalData patch_error_message (error_message row)
           \<and> job_id row' = job_id row
           \<and> unique_id row' = unique_id row
           \<and> source_chain row' = source_chain row
           \<and> source_tx_hash row' = source_tx_hash row
           \<and> source_block_number row' = source_block_number row
           \<and> dest_chain row' = dest_chain row
           \<and> dest_address row' = dest_address row
           \<and> dest_method row' = dest_method row
           \<and> dest_method_signature row' = dest_method_signature row
           \<and> event_data row' = event_data row
           \<and> proof_required row' = proof_required row
           \<and> retry_count row' = retry_count row
           \<and> created_at row' = created_at row
           \<and> mapping_name row' = mapping_name row)
       \<and> (\<forall>st waiting r. reachableState st waiting \<and> r \<in> set (jobs (db st)) \<longrightarrow>
                 (completed_at r \<noteq> None) = (status r = Completed))"
proof -
  have inv: "\<forall>st waiting r. reachableState st waiting \<and> r \<in> set (jobs (db st)) \<longrightarrow>
                 (completed_at r \<noteq> None) = (status r = Completed)"
    using reachable_rows by blast
  from assms inv show ?thesis
    by (simp add: updateJobStatus_def updateRow_fields)
qed

text \<open>
  The theorem at the call that completes the sample job, and at three states of the sample
  run: while the proof handler waits (the row says \<^verbatim>\<open>proof_requested\<close>), while the
  execution handler waits (the row says \<^verbatim>\<open>executing\<close>), and after its answer.
\<close>

theorem updateJobStatus_effect_witness:
  "status (jobs (updateJobStatus (exDatabase [exJob]) 1 Completed
                   (Some (noPatch\<lparr>patch_dest_tx_hash := Some ''0xbb''\<rparr>)) 6) ! 0) = Completed
   \<and> last_retry_at (jobs (updateJobStatus (exDatabase [exJob]) 1 Completed
                   (Some (noPatch\<lparr>patch_dest_tx_hash := Some ''0xbb''\<rparr>)) 6) ! 0) = Some 6
   \<and> completed_at (jobs (updateJobStatus (exDatabase [exJob]) 1 Completed
                   (Some (noPatch\<lparr>patch_dest_tx_hash := Some ''0xbb''\<rparr>)) 6) ! 0) = Some 6
   \<and> dest_tx_hash (jobs (updateJobStatus (exDatabase [exJob]) 1 Completed
                   (Some (noPatch\<lparr>patch_dest_tx_hash := Some ''0xbb''\<rparr>)) 6) ! 0) = Some ''0xbb''
   \<and> proof_data (jobs (updateJobStatus (exDatabase [exJob]) 1 Completed
                   (Some (noPatch\<lparr>patch_dest_tx_hash := Some ''0xbb''\<rparr>)) 6) ! 0) = None
   \<and> unique_id (jobs (updateJobStatus (exDatabase [exJob]) 1 Completed
                   (Some (noPatch\<lparr>patch_dest_tx_hash := Some ''0xbb''\<rparr>)) 6) ! 0) = ''A-0xaa-2-B''
   \<and> (completed_at exProofRequestedRow \<noteq> None) = (status exProofRequestedRow = Completed)
   \<and> (completed_at exExecutingRow \<noteq> None) = (status exExecutingRow = Completed)
   \<and> (completed_at exCompletedRow \<noteq> None) = (status exCompletedRow = Completed)"
proof -
  let ?d' = "updateJobStatus (exDatabase [exJob]) 1 Completed
               (Some (noPatch\<lparr>patch_dest_tx_hash := Some ''0xbb''\<rparr>)) 6"
  have i: "0 < length (jobs (exDatabase [exJob]))" by (simp add: exDatabase_def)
  have r: "exJob = jobs (exDatabase [exJob]) ! 0" by (simp add: exDatabase_def)
  have j: "job_id exJob = Some 1" by (simp add: exJob_def)
  have l: "exProofRequestedRow \<in> set (jobs (db \<lparr>db = exSweptDatabase [exProofRequestedRow], queue = []\<rparr>))"
    by (simp add: exSweptDatabase_def)
  have m: "exExecutingRow \<in> set (jobs (db \<lparr>db = exSweptDatabase [exExecutingRow], queue = []\<rparr>))"
    by (simp add: exSweptDatabase_def)
  have n: "exCompletedRow \<in> set (jobs (db \<lparr>db = exSweptDatabase [exCompletedRow], queue = []\<rparr>))"
    by (simp add: exSweptDatabase_def)
  note t = updateJobStatus_effect[OF refl i r refl, of 1 Completed
             "Some (noPatch\<lparr>patch_dest_tx_hash := Some ''0xbb''\<rparr>)" 6]
  from t ex_reachable_proof_requested l
  have zero: "(completed_at exProofRequestedRow \<noteq> None) = (status exProofRequestedRow = Completed)"
    by blast
  from t ex_reachable_executing m
  have one: "(completed_at exExecutingRow \<noteq> None) = (status exExecutingRow = Completed)"
    by blast
  from t ex_reachable_completed n
  have two: "(completed_at exCompletedRow \<noteq> None) = (status exCompletedRow = Completed)"
    by blast
  from t j zero one two show ?thesis
    by (simp add: patchedColumn_def noPatch_def exJob_def)
qed

subsection \<open>Dispatch by status\<close>

text \<open>
  C4. The specification sends a job in status \<^verbatim>\<open>proof_requested\<close> to the proof handler.
  \<^verbatim>\<open>registerProcessors\<close> registers handlers for pending, proof_ready and failed only,
  although \<^verbatim>\<open>getPendingJobs\<close> loads \<^verbatim>\<open>proof_requested\<close> rows into the work list. Such a
  job is taken from the work list and dropped: the store and the rest of the work list are
  as before, whatever the proof service would have answered.
\<close>

theorem proof_requested_job_is_dropped:
  "registerProcessors ProofRequested = None
   \<and> loadPendingJobs \<lparr>db = exDatabase [exJob\<lparr>status := ProofRequested\<rparr>], queue = []\<rparr>
       = \<lparr>db = exDatabase [exJob\<lparr>status := ProofRequested\<rparr>], queue = [exJob\<lparr>status := ProofRequested\<rparr>]\<rparr>
   \<and> processQueue env now
         \<lparr>db = exDatabase [exJob\<lparr>status := ProofRequested\<rparr>], queue = [exJob\<lparr>status := ProofRequested\<rparr>]\<rparr>
       = \<lparr>db = exDatabase [exJob\<lparr>status := ProofRequested\<rparr>], queue = []\<rparr>"
  by (simp add: registerProcessors_def loadPendingJobs_def getPendingJobs_def exDatabase_def
      processQueue_def processJob_def Let_def exJob_def)

subsection \<open>A tick on an empty work list\<close>

text \<open>
  C5, as stated, fails: on a tick with an empty work list \<^verbatim>\<open>processQueue\<close> pulls the
  retryable jobs only. A pending row in the store is not enqueued by the tick.
\<close>

theorem pending_jobs_not_pulled_counterexample:
  "queue \<lparr>db = exDatabase [exJob], queue = []\<rparr> = []
   \<and> getPendingJobs (db \<lparr>db = exDatabase [exJob], queue = []\<rparr>) = [exJob]
   \<and> queue (processQueue exEnv 7 \<lparr>db = exDatabase [exJob], queue = []\<rparr>) = []"
  by (simp add: getPendingJobs_def exDatabase_def processQueue_def getFailedJobs_def Let_def exJob_def)

text \<open>
  C5, amended. On every tick where the work list is empty the queue pulls
  \<^verbatim>\<open>getFailedJobs(maxRetries)\<close>, the rows with status failed and a retry count below 3 in
  ascending order of \<^verbatim>\<open>last_retry_at\<close>, enqueues them and leaves the store as it is. The
  pending rows (status pending, proof_requested or proof_ready) are pulled by
  \<^verbatim>\<open>loadPendingJobs\<close>, which the constructor calls once.
\<close>

theorem empty_work_list_pulls_retryable:
  assumes "queue st = []"
  shows "processQueue env now st = st\<lparr>queue := getFailedJobs (db st) maxRetries\<rparr>
       \<and> db (processQueue env now st) = db st
       \<and> set (getFailedJobs (db st) maxRetries)
           = {row \<in> set (jobs (db st)). status row = Failed \<and> retry_count row < 3}
       \<and> sorted (map last_retry_at (getFailedJobs (db st) maxRetries))
       \<and> queue (loadPendingJobs st) = getPendingJobs (db st)
       \<and> set (getPendingJobs (db st))
           = {row \<in> set (jobs (db st)).
                status row = Pending \<or> status row = ProofRequested \<or> status row = ProofReady}"
  using assms
  by (auto simp: processQueue_def Let_def getFailedJobs_def maxRetries_def loadPendingJobs_def
      getPendingJobs_def)

theorem empty_work_list_pulls_retryable_witness:
  "processQueue exEnv 7 \<lparr>db = exDatabase [exJob, exFailedRow], queue = []\<rparr>
     = \<lparr>db = exDatabase [exJob, exFailedRow], queue = [exFailedRow]\<rparr>"
proof -
  let ?st = "\<lparr>db = exDatabase [exJob, exFailedRow], queue = []\<rparr>"
  have q: "queue ?st = []" by simp
  have f: "getFailedJobs (exDatabase [exJob, exFailedRow]) maxRetries = [exFailedRow]"
    by (simp add: getFailedJobs_def exDatabase_def exJob_def exFailedRow_def maxRetries_def)
  from empty_work_list_pulls_retryable[OF q, of exEnv 7] show ?thesis
    by (simp add: f)
qed

subsection \<open>Retry policy\<close>

text \<open>
  C7. The specification lets a failed job re-enter processing only when 5 seconds have
  passed since its \<^verbatim>\<open>last_retry_at\<close>. \<^verbatim>\<open>handleJobError\<close> writes the time of the failure
  to the row only; the record it puts back on the work list is a copy of the one the handler
  was called with, and the record of a job the listener created has no \<^verbatim>\<open>last_retry_at\<close>.
  \<^verbatim>\<open>processRetry\<close> reads the record, takes the missing value for a delay that has passed,
  and retries at once. In the run below the listener creates the sample job, the job's proof
  request fails at time 900 (the row is then failed with \<^verbatim>\<open>last_retry_at\<close> 900), and the
  tick at time 1000 retries it after 100 ms: the row is pending again with retry count 1.
  The same row as \<^verbatim>\<open>getFailedJobs\<close> returns it, handed to the same tick, is put back on the
  work list unchanged, which is what the branch for a retry that is not yet due is for.
\<close>

theorem failed_job_retried_without_delay:
  "createJobForDestination (exListener [''A'', ''B'']) ''A-0xaa-2'' exEvent exMapping ''B''
       exEventData 5 exState
     = Inr \<lparr>db = exDatabase [exJob], queue = [exJob]\<rparr>
   \<and> processQueue exEnv 900 \<lparr>db = exDatabase [exJob], queue = [exJob]\<rparr>
     = \<lparr>db = exDatabase [exFailedRow], queue = [exJob\<lparr>status := Failed\<rparr>]\<rparr>
   \<and> processQueue exEnv 1000 \<lparr>db = exDatabase [exFailedRow], queue = [exJob\<lparr>status := Failed\<rparr>]\<rparr>
     = \<lparr>db = exDatabase [exRetriedRow], queue = [exJob\<lparr>status := Pending, retry_count := 1\<rparr>]\<rparr>
   \<and> status exFailedRow = Failed
   \<and> last_retry_at exFailedRow = Some 900
   \<and> last_retry_at (exJob\<lparr>status := Failed\<rparr>) = None
   \<and> (1000 :: int) - 900 < retryDelayMs
   \<and> status exRetriedRow = Pending
   \<and> retry_count exRetriedRow = 1
   \<and> getFailedJobs (exDatabase [exFailedRow]) maxRetries = [exFailedRow]
   \<and> processQueue exEnv 1000 \<lparr>db = exDatabase [exFailedRow], queue = [exFailedRow]\<rparr>
     = \<lparr>db = exDatabase [exFailedRow], queue = [exFailedRow]\<rparr>"
proof (intro conjI)
  show "createJobForDestination (exListener [''A'', ''B'']) ''A-0xaa-2'' exEvent exMapping ''B''
          exEventData 5 exState
        = Inr \<lparr>db = exDatabase [exJob], queue = [exJob]\<rparr>"
    by (rule ex_createJobForDestination)
  show "processQueue exEnv 900 \<lparr>db = exDatabase [exJob], queue = [exJob]\<rparr>
        = \<lparr>db = exDatabase [exFailedRow], queue = [exJob\<lparr>status := Failed\<rparr>]\<rparr>"
    by (simp add: processQueue_def processJob_def registerProcessors_def processProofRequest_def
        handleJobError_def addJob_def updateJobStatus_def updateRow_def setColumn_def noPatch_def
        exDatabase_def exJob_def exFailedRow_def exEnv_def Let_def)
  show "processQueue exEnv 1000 \<lparr>db = exDatabase [exFailedRow], queue = [exJob\<lparr>status := Failed\<rparr>]\<rparr>
        = \<lparr>db = exDatabase [exRetriedRow], queue = [exJob\<lparr>status := Pending, retry_count := 1\<rparr>]\<rparr>"
    by (simp add: processQueue_def processJob_def registerProcessors_def processRetry_def
        addJob_def updateJobStatus_def incrementRetryCount_def updateRow_def
        exDatabase_def exJob_def exFailedRow_def exRetriedRow_def retryDelayMs_def maxRetries_def
        Let_def)
  show "status exFailedRow = Failed" by (simp add: exFailedRow_def)
  show "last_retry_at exFailedRow = Some 900" by (simp add: exFailedRow_def)
  show "last_retry_at (exJob\<lparr>status := Failed\<rparr>) = None" by (simp add: exJob_def)
  show "(1000 :: int) - 900 < retryDelayMs" by (simp add: retryDelayMs_def)
  show "status exRetriedRow = Pending" by (simp add: exRetriedRow_def)
  show "retry_count exRetriedRow = 1" by (simp add: exRetriedRow_def)
  show "getFailedJobs (exDatabase [exFailedRow]) maxRetries = [exFailedRow]"
    by (simp add: getFailedJobs_def exDatabase_def exFailedRow_def exJob_def maxRetries_def)
  show "processQueue exEnv 1000 \<lparr>db = exDatabase [exFailedRow], queue = [exFailedRow]\<rparr>
        = \<lparr>db = exDatabase [exFailedRow], queue = [exFailedRow]\<rparr>"
    by (simp add: processQueue_def processJob_def registerProcessors_def processRetry_def
        addJob_def exFailedRow_def exJob_def retryDelayMs_def Let_def)
qed

subsection \<open>Polling for the proof\<close>

text \<open>
  C6. The specification has a response with status \<^verbatim>\<open>error\<close> raise
  \<^verbatim>\<open>ProofGenerationFailed\<close> and end the polling. In \<^verbatim>\<open>pollForProof\<close> the \<^verbatim>\<open>throw\<close> for
  that status stands inside the loop's own \<^verbatim>\<open>try\<close>, whose \<^verbatim>\<open>catch\<close> waits and polls again
  unless it was the last attempt. When the first answer is \<^verbatim>\<open>error\<close> and the second is
  \<^verbatim>\<open>complete\<close>, the call waits 2000 ms, queries, waits 500 ms, queries again and returns
  the proof.
\<close>

theorem error_status_does_not_stop_polling:
  "pollForProof exRespond decode 42
     = (Inr (''0x'' @ decode ''3q0='', ''complete''), [Wait 2000, Query 1, Wait 500, Query 2])"
proof -
  have "pollForProof exRespond decode 42 = pollLoop exRespond decode 42 1 [Wait 2000]"
    by (simp add: pollForProof_def initialWait_def)
  also have "\<dots> = pollLoop exRespond decode 42 (1 + 1) [Wait 2000, Query 1, Wait 500]"
    by (subst pollLoop.simps)
       (simp add: pollStep_def exRespond_def maxPollingAttempts_def pollingInterval_def)
  also have "\<dots> = (Inr (''0x'' @ decode ''3q0='', ''complete''), [Wait 2000, Query 1, Wait 500, Query 2])"
    by (subst pollLoop.simps)
       (simp add: pollStep_def exRespond_def maxPollingAttempts_def pollingInterval_def)
  finally show ?thesis .
qed

subsection \<open>Values for the destination method's parameters\<close>

text \<open>
  C8, as stated, fails: before the type-based default the code tries
  \<^verbatim>\<open>Object.values(eventArgs).find((value, index) => index < inputs.length)\<close>, which is the
  first value of \<^verbatim>\<open>args\<close> whenever there is one. A parameter \<^verbatim>\<open>address recipient\<close> that is
  absent from the arguments \<^verbatim>\<open>{key: "k"}\<close> gets the value \<^verbatim>\<open>"k"\<close>, not the zero address, and
  no warning is logged.
\<close>

theorem absent_parameter_takes_first_argument_counterexample:
  "lookupArg exEventData ''recipient'' = None
   \<and> encodeParametersFromEventData [\<lparr>inputType = ''address'', inputName = ''recipient''\<rparr>] exEventData None
       = Inr ([JStr ''k''], [])
   \<and> getDefaultValue ''address'' = JStr ''0x0000000000000000000000000000000000000000''"
  by (simp add: encodeParametersFromEventData_def encodeParameter_def lookupArg_def exEventData_def
      findMatchingValue_def getDefaultValue_def startsWith_def Let_def)

lemma encodeLoop_results:
  "encodeLoop n inputs ed pd (vs, ws) = Inr (vals, warnings) \<Longrightarrow>
     \<exists>rs. list_all2 (\<lambda>input r. encodeParameter n input ed pd = Inr r) inputs rs
        \<and> vals = vs @ map fst rs \<and> warnings = ws @ concat (map snd rs)"
proof (induction inputs arbitrary: vs ws)
  case Nil
  then show ?case by simp
next
  case (Cons input rest)
  from Cons.prems obtain v w where
    p: "encodeParameter n input ed pd = Inr (v, w)"
    and r: "encodeLoop n rest ed pd (vs @ [v], ws @ w) = Inr (vals, warnings)"
    by (auto split: sum.splits)
  from Cons.IH[OF r] obtain rs where
    rs: "list_all2 (\<lambda>input r. encodeParameter n input ed pd = Inr r) rest rs"
    and v: "vals = (vs @ [v]) @ map fst rs"
    and w: "warnings = (ws @ w) @ concat (map snd rs)"
    by blast
  from p rs have "list_all2 (\<lambda>input r. encodeParameter n input ed pd = Inr r) (input # rest) ((v, w) # rs)"
    by simp
  moreover from v have "vals = vs @ map fst ((v, w) # rs)" by simp
  moreover from w have "warnings = ws @ concat (map snd ((v, w) # rs))" by simp
  ultimately show ?case by blast
qed

lemma encodeLoop_nth:
  assumes "encodeLoop n inputs ed pd ([], []) = Inr (vals, warnings)" and "i < length inputs"
  shows "\<exists>w. encodeParameter n (inputs ! i) ed pd = Inr (vals ! i, w) \<and> set w \<subseteq> set warnings"
proof -
  from encodeLoop_results[OF assms(1)] obtain rs where
    rs: "list_all2 (\<lambda>input r. encodeParameter n input ed pd = Inr r) inputs rs"
    and v: "vals = map fst rs" and w: "warnings = concat (map snd rs)"
    by auto
  from rs have len: "length rs = length inputs" by (simp add: list_all2_lengthD)
  from list_all2_nthD[OF rs assms(2)] have "encodeParameter n (inputs ! i) ed pd = Inr (rs ! i)" .
  moreover from len assms(2) v have "vals ! i = fst (rs ! i)" by simp
  moreover from len assms(2) have "rs ! i \<in> set rs" by simp
  with w have "set (snd (rs ! i)) \<subseteq> set warnings" by auto
  ultimately show ?thesis by (cases "rs ! i") auto
qed

lemma encodeLoop_no_warning:
  "encodeLoop n inputs ed pd (vs, ws) = Inr (vals, warnings) \<Longrightarrow> findMatchingValue n ed \<noteq> None
     \<Longrightarrow> warnings = ws"
proof (induction inputs arbitrary: vs ws)
  case Nil
  then show ?case by simp
next
  case (Cons input rest)
  from Cons.prems(1) obtain v w where
    p: "encodeParameter n input ed pd = Inr (v, w)"
    and r: "encodeLoop n rest ed pd (vs @ [v], ws @ w) = Inr (vals, warnings)"
    by (auto split: sum.splits)
  from p Cons.prems(2) have "w = []"
    by (auto simp: encodeParameter_def split: if_splits option.splits)
  with Cons.IH[OF r Cons.prems(2)] show ?case by simp
qed

lemma findMatchingValue_first:
  "0 < n \<Longrightarrow> findMatchingValue n ed
     = (case eventArgs ed of Some ((k, v) # rest) \<Rightarrow> Some v | _ \<Rightarrow> None)"
  by (auto simp: findMatchingValue_def Let_def split: option.splits list.splits)

lemma getDefaultValue_bytes: "startsWith ty ''bytes'' \<Longrightarrow> getDefaultValue ty = JStr ''0x''"
proof -
  assume a: "startsWith ty ''bytes''"
  then have t: "take 5 ty = ''bytes''" by (simp add: startsWith_def eval_nat_numeral)
  have "ty = take 5 ty @ drop 5 ty" by simp
  then have "ty = ''bytes'' @ drop 5 ty" by (simp only: t)
  then obtain r where "ty = ''bytes'' @ r" ..
  then show ?thesis by (simp add: getDefaultValue_def startsWith_def)
qed

text \<open>
  C8, amended. A parameter that is none of \<^verbatim>\<open>bytes proof\<close>, \<^verbatim>\<open>string key\<close> and
  \<^verbatim>\<open>bytes value\<close> and is absent from \<^verbatim>\<open>event_data.args\<close> is assigned the first value of
  \<^verbatim>\<open>args\<close> when \<^verbatim>\<open>args\<close> has an entry, and then no warning is logged at all. When \<^verbatim>\<open>args\<close> is
  empty or missing it is assigned the type-based default and a warning names it. The defaults
  are 0 for a type starting with \<^verbatim>\<open>uint\<close> or \<^verbatim>\<open>int\<close>, the zero address, \<^verbatim>\<open>false\<close> for
  \<^verbatim>\<open>bool\<close>, \<^verbatim>\<open>0x\<close> for a type starting with \<^verbatim>\<open>bytes\<close> and the empty string for \<^verbatim>\<open>string\<close>.
\<close>

theorem absent_parameter_fallback:
  assumes "encodeParametersFromEventData inputs eventData proofData = Inr (vals, warnings)"
      and "i < length inputs"
      and "\<not> (inputName (inputs ! i) = ''proof'' \<and> inputType (inputs ! i) = ''bytes'')"
      and "\<not> (inputName (inputs ! i) = ''key'' \<and> inputType (inputs ! i) = ''string'')"
      and "\<not> (inputName (inputs ! i) = ''value'' \<and> inputType (inputs ! i) = ''bytes'')"
      and "lookupArg eventData (inputName (inputs ! i)) = None"
  shows "(case eventArgs eventData of
            Some ((k, v) # rest) \<Rightarrow> vals ! i = v \<and> warnings = []
          | _ \<Rightarrow> vals ! i = getDefaultValue (inputType (inputs ! i))
                 \<and> inputName (inputs ! i) \<in> set warnings)
       \<and> (\<forall>ty. startsWith ty ''uint'' \<or> startsWith ty ''int'' \<longrightarrow> getDefaultValue ty = JNum 0)
       \<and> getDefaultValue ''address'' = JStr ''0x0000000000000000000000000000000000000000''
       \<and> getDefaultValue ''bool'' = JBool False
       \<and> (\<forall>ty. startsWith ty ''bytes'' \<longrightarrow> getDefaultValue ty = JStr ''0x'')
       \<and> getDefaultValue ''string'' = JStr []"
proof -
  let ?n = "length inputs"
  from assms(2) have n: "0 < ?n" by auto
  from assms(1) have loop: "encodeLoop ?n inputs eventData proofData ([], []) = Inr (vals, warnings)"
    by (simp add: encodeParametersFromEventData_def)
  from encodeLoop_nth[OF loop assms(2)] obtain w where
    p: "encodeParameter ?n (inputs ! i) eventData proofData = Inr (vals ! i, w)"
    and w: "set w \<subseteq> set warnings"
    by auto
  have first: "case eventArgs eventData of
            Some ((k, v) # rest) \<Rightarrow> vals ! i = v \<and> warnings = []
          | _ \<Rightarrow> vals ! i = getDefaultValue (inputType (inputs ! i))
                 \<and> inputName (inputs ! i) \<in> set warnings"
  proof (cases "findMatchingValue ?n eventData")
    case None
    with p assms(3-6) have "vals ! i = getDefaultValue (inputType (inputs ! i))" "w = [inputName (inputs ! i)]"
      by (auto simp: encodeParameter_def)
    with w None findMatchingValue_first[OF n, of eventData] show ?thesis
      by (auto split: option.splits list.splits)
  next
    case (Some mv)
    with p assms(3-6) have "vals ! i = mv"
      by (auto simp: encodeParameter_def)
    moreover from encodeLoop_no_warning[OF loop] Some have "warnings = []" by simp
    ultimately show ?thesis using Some findMatchingValue_first[OF n, of eventData]
      by (auto split: option.splits list.splits)
  qed
  show ?thesis
    using first getDefaultValue_bytes
    by (simp add: getDefaultValue_def startsWith_def)
qed

theorem absent_parameter_fallback_witness:
  "encodeParametersFromEventData [\<lparr>inputType = ''uint256'', inputName = ''amount''\<rparr>]
     (exEventData\<lparr>eventArgs := Some []\<rparr>) None = Inr ([JNum 0], [''amount''])
   \<and> [JNum 0] ! 0 = getDefaultValue (inputType (\<lparr>inputType = ''uint256'', inputName = ''amount''\<rparr>))"
proof -
  let ?inputs = "[\<lparr>inputType = ''uint256'', inputName = ''amount''\<rparr>]"
  let ?ed = "exEventData\<lparr>eventArgs := Some []\<rparr>"
  have e: "encodeParametersFromEventData ?inputs ?ed None = Inr ([JNum 0], [''amount''])"
    by (simp add: encodeParametersFromEventData_def encodeParameter_def lookupArg_def exEventData_def
      findMatchingValue_def getDefaultValue_def startsWith_def Let_def)
  have l: "lookupArg ?ed (inputName (?inputs ! 0)) = None"
    by (simp add: lookupArg_def)
  from absent_parameter_fallback[OF e _ _ _ _ l] e show ?thesis
    by simp
qed

end
